theory Spec2Isabelle
  imports Main "HOL-Library.Sublist" "HOL-Library.Multiset"
begin

section \<open>Python strings\<close>

text \<open>
  A Python \<open>str\<close> is modelled as a \<open>string\<close>, one \<open>char\<close> per code point, so the
  model covers the code points 0 to 255. In that range \<open>str.strip()\<close> and the regular
  expression class \<open>\s\<close> remove the same characters (tab, line feed, vertical tab, form
  feed, carriage return, the separators 0x1C to 0x1F, space, 0x85 and 0xA0), and \<open>\d\<close>,
  the decimal digits, is the ten ASCII digits.
\<close>

datatype error = ValueError string | IndexError | KeyError string

definition isspace :: "char \<Rightarrow> bool" where
  "isspace c \<longleftrightarrow> c \<in> set [CHR 0x09, CHR 0x0A, CHR 0x0B, CHR 0x0C, CHR 0x0D,
     CHR 0x1C, CHR 0x1D, CHR 0x1E, CHR 0x1F, CHR 0x20, CHR 0x85, CHR 0xA0]"

definition isdecimal :: "char \<Rightarrow> bool" where
  "isdecimal c \<longleftrightarrow> c \<in> set ''0123456789''"

text \<open>\<open>s.strip(chars)\<close> drops, at both ends, the characters that belong to \<open>chars\<close>.\<close>

definition strip_with :: "(char \<Rightarrow> bool) \<Rightarrow> string \<Rightarrow> string" where
  "strip_with p s = rev (dropWhile p (rev (dropWhile p s)))"

definition strip :: "string \<Rightarrow> string" where
  "strip s = strip_with isspace s"

definition strip_chars :: "string \<Rightarrow> string \<Rightarrow> string" where
  "strip_chars chars s = strip_with (\<lambda>c. c \<in> set chars) s"

text \<open>\<open>s.find(sub)\<close>: the lowest index where \<open>sub\<close> starts, \<open>None\<close> for Python's -1.\<close>

fun find_py :: "string \<Rightarrow> string \<Rightarrow> nat option" where
  "find_py sub [] = (if sub = [] then Some 0 else None)"
| "find_py sub (c # cs) =
     (if prefix sub (c # cs) then Some 0 else map_option Suc (find_py sub cs))"

text \<open>\<open>sub in s\<close>.\<close>

definition contains_py :: "string \<Rightarrow> string \<Rightarrow> bool" where
  "contains_py sub s \<longleftrightarrow> find_py sub s \<noteq> None"

text \<open>
  \<open>s.split(sep)\<close>: the pieces between the occurrences of \<open>sep\<close>, found from the left,
  each search starting after the occurrence before. An empty separator raises.
\<close>

function split_from :: "string \<Rightarrow> string \<Rightarrow> string list" where
  "split_from sep s =
     (case find_py sep s of
        None \<Rightarrow> [s]
      | Some i \<Rightarrow> if sep = [] then [s]
                 else take i s # split_from sep (drop (i + length sep) s))"
  by pat_completeness auto
termination
proof (relation "measure (\<lambda>(sep, s). length s)")
  show "wf (measure (\<lambda>(sep, s). length s))"
    by simp
next
  fix sep s :: string and i :: nat
  assume found: "find_py sep s = Some i" and nonempty: "sep \<noteq> []"
  have bound: "find_py sep t = Some j \<Longrightarrow> j + length sep \<le> length t" for t j
  proof (induction t arbitrary: j)
    case Nil
    then show ?case by (simp split: if_splits)
  next
    case (Cons c cs)
    then show ?case
      by (auto split: if_splits dest: prefix_length_le)
  qed
  from bound [OF found] nonempty
  show "((sep, drop (i + length sep) s), (sep, s)) \<in> measure (\<lambda>(sep, s). length s)"
    by (cases sep) auto
qed

declare split_from.simps [simp del]

definition split_py :: "string \<Rightarrow> string \<Rightarrow> error + string list" where
  "split_py sep s =
     (if sep = [] then Inl (ValueError ''empty separator'') else Inr (split_from sep s))"

text \<open>\<open>xs[-1]\<close>.\<close>

definition last_py :: "'a list \<Rightarrow> error + 'a" where
  "last_py xs = (case xs of [] \<Rightarrow> Inl IndexError | _ \<Rightarrow> Inr (last xs))"

section \<open>The regular expression of the output parser\<close>

text \<open>
  The pattern of \<open>CustomOutputParser.parse\<close> is a sequence of literals and of starred
  character classes, two of them capturing. \<open>re\<close> matches by backtracking: a greedy star
  tries the longest run first, a lazy one the shortest, and the first choice that lets
  the rest of the pattern match wins. \<open>lens\<close> lists the lengths an atom may consume, in
  the order \<open>re\<close> tries them.
\<close>

datatype atom = Lit string | Star "char \<Rightarrow> bool" | LazyStar "char \<Rightarrow> bool"

datatype item = Plain atom | Group atom

fun first_some :: "('a \<Rightarrow> 'b option) \<Rightarrow> 'a list \<Rightarrow> 'b option" where
  "first_some f [] = None"
| "first_some f (x # xs) = (case f x of Some y \<Rightarrow> Some y | None \<Rightarrow> first_some f xs)"

fun lens :: "atom \<Rightarrow> string \<Rightarrow> nat list" where
  "lens (Lit l) s = (if prefix l s then [length l] else [])"
| "lens (Star p) s = rev [0..<Suc (length (takeWhile p s))]"
| "lens (LazyStar p) s = [0..<Suc (length (takeWhile p s))]"

text \<open>\<open>match_here\<close> matches the pattern at the start of \<open>s\<close>; it returns the groups.\<close>

fun match_here :: "item list \<Rightarrow> string \<Rightarrow> string list option" where
  "match_here [] s = Some []"
| "match_here (Plain a # r) s = first_some (\<lambda>k. match_here r (drop k s)) (lens a s)"
| "match_here (Group a # r) s =
     first_some (\<lambda>k. map_option ((#) (take k s)) (match_here r (drop k s))) (lens a s)"

text \<open>\<open>re.search\<close>: the match at the lowest start position.\<close>

definition search :: "item list \<Rightarrow> string \<Rightarrow> string list option" where
  "search p s = first_some (\<lambda>i. match_here p (drop i s)) [0..<Suc (length s)]"

text \<open>The class \<open>.\<close> under \<open>re.DOTALL\<close>.\<close>

definition dot_all :: "char \<Rightarrow> bool" where
  "dot_all c \<longleftrightarrow> True"

text \<open>\<^verbatim>\<open>Action\s*\d*\s*:(.*?)\nAction\s*\d*\s*Input\s*\d*\s*:[\s]*(.*)\<close>\<close>

definition regex :: "item list" where
  "regex =
     [Plain (Lit ''Action''), Plain (Star isspace), Plain (Star isdecimal),
      Plain (Star isspace), Plain (Lit '':''), Group (LazyStar dot_all),
      Plain (Lit ''\<newline>Action''), Plain (Star isspace), Plain (Star isdecimal),
      Plain (Star isspace), Plain (Lit ''Input''), Plain (Star isspace),
      Plain (Star isdecimal), Plain (Star isspace), Plain (Lit '':''),
      Plain (Star isspace), Group (Star dot_all)]"

section \<open>The output parser\<close>

datatype agent_step =
    AgentAction (tool: string) (tool_input: string) (log: string)
  | AgentFinish (return_values: "(string \<times> string) list") (log: string)

text \<open>\<open>CustomOutputParser.parse\<close>; \<open>match.group(n)\<close> is the n-th captured text.\<close>

definition parse :: "string \<Rightarrow> error + agent_step" where
  "parse llm_output =
     (if contains_py ''Final Answer:'' llm_output then
        (case split_py ''Final Answer:'' llm_output of
           Inl e \<Rightarrow> Inl e
         | Inr parts \<Rightarrow>
             (case last_py parts of
                Inl e \<Rightarrow> Inl e
              | Inr answer \<Rightarrow> Inr (AgentFinish [(''output'', strip answer)] llm_output)))
      else
        (case search regex llm_output of
           None \<Rightarrow> Inl (ValueError (''Could not parse LLM output: `'' @ llm_output @ ''`''))
         | Some groups \<Rightarrow>
             (let action = strip (groups ! 0);
                  action_input = groups ! 1
              in Inr (AgentAction action
                        (strip_chars [CHR 0x22] (strip_chars '' '' action_input))
                        llm_output))))"

section \<open>The shapes the parser recognises, in the words of the specification\<close>

text \<open>
  The specification describes the action shape as \<open>Action\<close>, an optional numeric index
  and a colon, the action text, a line feed, then \<open>Action\<close>, an optional index,
  \<open>Input\<close>, an optional index and a colon, and the input text. The optional index is a
  run of digits with optional whitespace around it. \<open>action_shape s pre act inp\<close> says
  that \<open>s\<close> reads that way after the prefix \<open>pre\<close>, with \<open>act\<close> between the first
  header and the line feed and \<open>inp\<close> after the second header.
\<close>

definition action_header :: "string \<Rightarrow> bool" where
  "action_header h \<longleftrightarrow>
     (\<exists>w1 d w2. list_all isspace w1 \<and> list_all isdecimal d \<and> list_all isspace w2 \<and>
        h = ''Action'' @ w1 @ d @ w2 @ '':'')"

definition input_header :: "string \<Rightarrow> bool" where
  "input_header h \<longleftrightarrow>
     (\<exists>w1 d1 w2 w3 d2 w4.
        list_all isspace w1 \<and> list_all isdecimal d1 \<and> list_all isspace w2 \<and>
        list_all isspace w3 \<and> list_all isdecimal d2 \<and> list_all isspace w4 \<and>
        h = ''Action'' @ w1 @ d1 @ w2 @ ''Input'' @ w3 @ d2 @ w4 @ '':'')"

definition action_shape :: "string \<Rightarrow> string \<Rightarrow> string \<Rightarrow> string \<Rightarrow> bool" where
  "action_shape s pre act inp \<longleftrightarrow>
     (\<exists>h1 h2. action_header h1 \<and> input_header h2 \<and>
        s = pre @ h1 @ act @ ''\<newline>'' @ h2 @ inp)"

text \<open>
  The unquoting the specification names: one pair of surrounding double quotes is removed,
  after the spaces at both ends.
\<close>

definition strip_one_pair :: "string \<Rightarrow> string" where
  "strip_one_pair y =
     (if 2 \<le> length y \<and> hd y = CHR 0x22 \<and> last y = CHR 0x22 then butlast (tl y) else y)"

definition claimed_tool_input :: "string \<Rightarrow> string" where
  "claimed_tool_input inp = strip_one_pair (strip_chars '' '' inp)"

section \<open>Notions used in the proofs about the pattern\<close>

text \<open>
  \<open>ends as s\<close> lists, in the order of the backtracking, the lengths that the atoms
  \<open>as\<close> can consume at the start of \<open>s\<close>; \<open>atoms_lang as h\<close> says that the atoms can
  consume exactly \<open>h\<close>. The pattern is cut into the atoms of its two headers and the two
  items that follow the second header.
\<close>

definition shape_here :: "string \<Rightarrow> string \<Rightarrow> string \<Rightarrow> bool" where
  "shape_here t act inp \<longleftrightarrow>
     (\<exists>h1 h2. action_header h1 \<and> input_header h2 \<and> t = h1 @ act @ ''\<newline>'' @ h2 @ inp)"

definition action_atoms :: "atom list" where
  "action_atoms = [Lit ''Action'', Star isspace, Star isdecimal, Star isspace, Lit '':'']"

definition input_atoms :: "atom list" where
  "input_atoms =
     [Lit ''\<newline>Action'', Star isspace, Star isdecimal, Star isspace, Lit ''Input'',
      Star isspace, Star isdecimal, Star isspace, Lit '':'']"

definition tail_items :: "item list" where
  "tail_items = [Plain (Star isspace), Group (Star dot_all)]"

definition input_items :: "item list" where
  "input_items = map Plain input_atoms @ tail_items"

definition header_form :: "string \<Rightarrow> bool" where
  "header_form h \<longleftrightarrow> (\<exists>u. h = ''Action'' @ u @ '':'' \<and> CHR '':'' \<notin> set u)"

fun ends :: "atom list \<Rightarrow> string \<Rightarrow> nat list" where
  "ends [] s = [0]"
| "ends (a # as) s = concat (map (\<lambda>k. map ((+) k) (ends as (drop k s))) (lens a s))"

fun atom_lang :: "atom \<Rightarrow> string \<Rightarrow> bool" where
  "atom_lang (Lit l) w \<longleftrightarrow> w = l"
| "atom_lang (Star p) w \<longleftrightarrow> list_all p w"
| "atom_lang (LazyStar p) w \<longleftrightarrow> list_all p w"

fun atoms_lang :: "atom list \<Rightarrow> string \<Rightarrow> bool" where
  "atoms_lang [] h \<longleftrightarrow> h = []"
| "atoms_lang (a # as) h \<longleftrightarrow> (\<exists>w h'. h = w @ h' \<and> atom_lang a w \<and> atoms_lang as h')"

section \<open>Tools, plugins and the tools getter\<close>

text \<open>
  A \<open>Tool\<close> has a name, a description and the function that runs it. A plugin manifest
  gives the two fields the program reads. A toolkit holds the tools of one plugin. A
  \<open>Document\<close> carries a text and a metadata dictionary.
\<close>

record tool =
  name :: string
  description :: string
  func :: "string \<Rightarrow> string"

record ai_plugin =
  name_for_model :: string
  description_for_model :: string

record toolkit =
  nla_tools :: "tool list"

record document =
  page_content :: string
  metadata :: "string \<rightharpoonup> string"

definition urls :: "string list" where
  "urls =
     [''https://api.speak.com/.well-known/ai-plugin.json'',
      ''https://www.klarna.com/.well-known/ai-plugin.json'',
      ''https://schooldigger.com/.well-known/ai-plugin.json'']"

text \<open>
  \<open>AIPlugin.from_url\<close> fetches a manifest and \<open>NLAToolkit.from_llm_and_ai_plugin\<close> builds
  a plugin's toolkit; both belong to the library and are parameters here. A fetch that
  fails ends \<open>generate_response\<close> before any of the definitions below is used.
\<close>

definition AI_PLUGINS :: "(string \<Rightarrow> ai_plugin) \<Rightarrow> ai_plugin list" where
  "AI_PLUGINS from_url = map from_url urls"

definition docs :: "(string \<Rightarrow> ai_plugin) \<Rightarrow> document list" where
  "docs from_url =
     map (\<lambda>plugin. \<lparr>page_content = description_for_model plugin,
                     metadata = [''plugin_name'' \<mapsto> name_for_model plugin]\<rparr>)
       (AI_PLUGINS from_url)"

text \<open>The dictionary comprehension: a later plugin of the same name replaces an earlier one.\<close>

definition toolkits_dict ::
    "(ai_plugin \<Rightarrow> toolkit) \<Rightarrow> (string \<Rightarrow> ai_plugin) \<Rightarrow> (string \<rightharpoonup> toolkit)" where
  "toolkits_dict from_llm_and_ai_plugin from_url =
     foldl (\<lambda>d plugin. d(name_for_model plugin \<mapsto> from_llm_and_ai_plugin plugin))
       Map.empty (AI_PLUGINS from_url)"

text \<open>
  Modelled from the spec: the similarity index and its retriever are the library's
  (\<open>FAISS.from_documents\<close>, \<open>as_retriever\<close>, \<open>get_relevant_documents\<close>). Section 4.2 of the
  specification gives the contract: a query returns the k indexed documents nearest to
  it, nearest first, and k is 4 when none is given. \<open>rank query ds\<close> stands for the
  indexed documents in the order of their distance to the query.
\<close>

definition default_k :: nat where
  "default_k = 4"

definition get_relevant_documents ::
    "(string \<Rightarrow> document list \<Rightarrow> document list) \<Rightarrow> document list \<Rightarrow> string \<Rightarrow> document list" where
  "get_relevant_documents rank indexed query = take default_k (rank query indexed)"

text \<open>\<open>d[key]\<close> on a dictionary.\<close>

definition getitem :: "('k \<rightharpoonup> 'v) \<Rightarrow> 'k \<Rightarrow> ('k \<Rightarrow> error) \<Rightarrow> error + 'v" where
  "getitem d key err = (case d key of None \<Rightarrow> Inl (err key) | Some v \<Rightarrow> Inr v)"

text \<open>The list comprehension of \<open>get_tools\<close>: the first missing key raises.\<close>

fun lookup_toolkits :: "(string \<rightharpoonup> toolkit) \<Rightarrow> document list \<Rightarrow> error + toolkit list" where
  "lookup_toolkits d [] = Inr []"
| "lookup_toolkits d (doc # ds) =
     (case getitem (metadata doc) ''plugin_name'' KeyError of
        Inl e \<Rightarrow> Inl e
      | Inr plugin_name \<Rightarrow>
          (case getitem d plugin_name KeyError of
             Inl e \<Rightarrow> Inl e
           | Inr tk \<Rightarrow>
               (case lookup_toolkits d ds of
                  Inl e \<Rightarrow> Inl e
                | Inr tks \<Rightarrow> Inr (tk # tks))))"

definition get_tools ::
    "(string \<Rightarrow> document list) \<Rightarrow> (string \<rightharpoonup> toolkit) \<Rightarrow> string \<Rightarrow> error + tool list" where
  "get_tools retriever toolkits query =
     (let docs = retriever query
      in case lookup_toolkits toolkits docs of
           Inl e \<Rightarrow> Inl e
         | Inr tool_kits \<Rightarrow> Inr (foldl (\<lambda>tools tk. tools @ nla_tools tk) [] tool_kits))"

section \<open>The prompt template\<close>

text \<open>\<open>sep.join(xs)\<close>.\<close>

fun join :: "string \<Rightarrow> string list \<Rightarrow> string" where
  "join sep [] = []"
| "join sep [x] = x"
| "join sep (x # y # ys) = x @ sep @ join sep (y # ys)"

definition template :: string where
  "template =
     ''Answer the following questions as best you can, speaking casual American English. You have access to the following tools:\<newline>'' @
     ''\<newline>'' @
     ''    {tools}\<newline>'' @
     ''\<newline>'' @
     ''    Use the following format:\<newline>'' @
     ''\<newline>'' @
     ''    Question: the input question you must answer\<newline>'' @
     ''    Thought: you should always think about what to do\<newline>'' @
     ''    Action: the action to take, should be one of [{tool_names}]\<newline>'' @
     ''    Action Input: the input to the action\<newline>'' @
     ''    Observation: the result of the action\<newline>'' @
     ''    ... (this Thought/Action/Action Input/Observation can repeat N times)\<newline>'' @
     ''    Thought: I now know the final answer\<newline>'' @
     ''    Final Answer: the final answer to the original input question\<newline>'' @
     ''\<newline>'' @
     ''    Begin! Remember to speak casual American English when giving your final answer.\<newline>'' @
     ''\<newline>'' @
     ''    Question: {input}\<newline>'' @
     ''    {agent_scratchpad}''"

text \<open>
  \<open>template.format(**kwargs)\<close> for replacement fields that are plain names, as all the
  fields of the template are: a field is replaced by the value of its key, a missing key
  raises \<open>KeyError\<close>, a doubled brace stands for one brace, and a brace left alone raises
  \<open>ValueError\<close>. Positional fields, conversions and format specifications, which the
  template does not use, are left out. The second argument of \<open>format_from\<close> is the field name read so far,
  when the scan is inside a field; \<open>emit v rest\<close> puts \<open>v\<close> before the text that the rest
  of the template gives, unless the rest raises.
\<close>

definition emit :: "string \<Rightarrow> error + string \<Rightarrow> error + string" where
  "emit v rest = (case rest of Inl e \<Rightarrow> Inl e | Inr s \<Rightarrow> Inr (v @ s))"

fun format_from :: "(string \<rightharpoonup> string) \<Rightarrow> string option \<Rightarrow> string \<Rightarrow> error + string" where
  "format_from kwargs None [] = Inr []"
| "format_from kwargs (Some field) [] =
     Inl (ValueError ''expected '}' before end of string'')"
| "format_from kwargs None (c # cs) =
     (if c = CHR ''{'' then
        (case cs of
           [] \<Rightarrow> Inl (ValueError ''Single '{' encountered in format string'')
         | c' # cs' \<Rightarrow>
             if c' = CHR ''{'' then emit [c] (format_from kwargs None cs')
             else format_from kwargs (Some []) cs)
      else if c = CHR ''}'' then
        (case cs of
           [] \<Rightarrow> Inl (ValueError ''Single '}' encountered in format string'')
         | c' # cs' \<Rightarrow>
             if c' = CHR ''}'' then emit [c] (format_from kwargs None cs')
             else Inl (ValueError ''Single '}' encountered in format string''))
      else emit [c] (format_from kwargs None cs))"
| "format_from kwargs (Some field) (c # cs) =
     (if c = CHR ''}'' then
        (case kwargs field of
           None \<Rightarrow> Inl (KeyError field)
         | Some v \<Rightarrow> emit v (format_from kwargs None cs))
      else format_from kwargs (Some (field @ [c])) cs)"

definition format_str :: "string \<Rightarrow> (string \<rightharpoonup> string) \<Rightarrow> error + string" where
  "format_str t kwargs = format_from kwargs None t"

text \<open>
  \<open>CustomPromptTemplate.format\<close>. The chain calls it with the two input variables of the
  prompt, \<open>input\<close> and \<open>intermediate_steps\<close>; after the pop, \<open>kwargs\<close> holds \<open>input\<close> alone.
  \<open>format_kwargs\<close> is the dictionary handed to \<open>template.format\<close>.
\<close>

definition agent_scratchpad :: "(agent_step \<times> string) list \<Rightarrow> string" where
  "agent_scratchpad intermediate_steps =
     foldl (\<lambda>thoughts (action, observation).
              (thoughts @ log action) @ ''\<newline>Observation: '' @ observation @ ''\<newline>Thought: '')
       [] intermediate_steps"

definition format_kwargs ::
    "(string \<Rightarrow> error + tool list) \<Rightarrow> string \<Rightarrow> (agent_step \<times> string) list \<Rightarrow>
       error + (string \<rightharpoonup> string)" where
  "format_kwargs tools_getter input intermediate_steps =
     (let thoughts = agent_scratchpad intermediate_steps;
          kwargs = [''input'' \<mapsto> input];
          kwargs = kwargs(''agent_scratchpad'' \<mapsto> thoughts)
      in case tools_getter input of
           Inl e \<Rightarrow> Inl e
         | Inr tools \<Rightarrow>
             (let kwargs = kwargs(''tools'' \<mapsto>
                    join ''\<newline>'' (map (\<lambda>tool. name tool @ '': '' @ description tool) tools));
                  kwargs = kwargs(''tool_names'' \<mapsto> join '', '' (map name tools))
              in Inr kwargs))"

definition format ::
    "string \<Rightarrow> (string \<Rightarrow> error + tool list) \<Rightarrow> string \<Rightarrow> (agent_step \<times> string) list \<Rightarrow>
       error + string" where
  "format t tools_getter input intermediate_steps =
     (case format_kwargs tools_getter input intermediate_steps of
        Inl e \<Rightarrow> Inl e
      | Inr kwargs \<Rightarrow> format_str t kwargs)"

section \<open>The orchestration loop\<close>

text \<open>
  Modelled from the spec: the loop is the library's \<open>AgentExecutor\<close>; the program builds
  it from the agent and the tools with \<open>max_iterations=3\<close> and calls \<open>run\<close> on the user
  query. Section 4.6 of the specification describes it. Thinking assembles a prompt from
  the query and the transcript and asks the model for a completion. Acting parses the
  completion: a finish ends the run with the final answer; an action whose tool is not
  in the tool set fails with \<open>UnknownToolError\<close>; otherwise the tool runs on the tool
  input, the pair of action and observation is appended to the transcript, and the loop
  thinks again. After \<open>max_iterations\<close> cycles the loop stops and returns the best-effort
  output, which is not an error. The model, the prompt assembler and the best-effort
  output are parameters; \<open>run_cycles\<close> counts the completions asked of the model.
\<close>

definition max_iterations :: nat where
  "max_iterations = 3"

datatype loop_error = Failed error | UnknownToolError string

record run =
  run_cycles :: nat
  run_transcript :: "(agent_step \<times> string) list"
  run_outcome :: "loop_error + string"

function orchestration_loop ::
    "(string \<Rightarrow> string) \<Rightarrow> ((agent_step \<times> string) list \<Rightarrow> error + string) \<Rightarrow> tool list \<Rightarrow>
     ((agent_step \<times> string) list \<Rightarrow> string) \<Rightarrow> nat \<Rightarrow> (agent_step \<times> string) list \<Rightarrow> run" where
  "orchestration_loop llm assemble tools best_effort iterations steps =
     (if iterations < max_iterations then
        (case assemble steps of
           Inl e \<Rightarrow>
             \<lparr>run_cycles = iterations, run_transcript = steps, run_outcome = Inl (Failed e)\<rparr>
         | Inr prompt \<Rightarrow>
             (case parse (llm prompt) of
                Inl e \<Rightarrow>
                  \<lparr>run_cycles = Suc iterations, run_transcript = steps,
                   run_outcome = Inl (Failed e)\<rparr>
              | Inr (AgentFinish values text) \<Rightarrow>
                  \<lparr>run_cycles = Suc iterations, run_transcript = steps,
                   run_outcome =
                     (case map_of values ''output'' of
                        None \<Rightarrow> Inl (Failed (KeyError ''output''))
                      | Some answer \<Rightarrow> Inr answer)\<rparr>
              | Inr (AgentAction t t_input text) \<Rightarrow>
                  (case find (\<lambda>candidate. name candidate = t) tools of
                     None \<Rightarrow>
                       \<lparr>run_cycles = Suc iterations, run_transcript = steps,
                        run_outcome = Inl (UnknownToolError t)\<rparr>
                   | Some chosen \<Rightarrow>
                       orchestration_loop llm assemble tools best_effort (Suc iterations)
                         (steps @ [(AgentAction t t_input text, func chosen t_input)]))))
      else
        \<lparr>run_cycles = iterations, run_transcript = steps,
         run_outcome = Inr (best_effort steps)\<rparr>)"
  by pat_completeness auto
termination
  by (relation "measure (\<lambda>(llm, assemble, tools, best_effort, iterations, steps).
        max_iterations - iterations)") auto

declare orchestration_loop.simps [simp del]

text \<open>\<open>agent_executor.run(user_query)\<close>: the loop from an empty transcript.\<close>

definition agent_executor_run ::
    "(string \<Rightarrow> string) \<Rightarrow> ((agent_step \<times> string) list \<Rightarrow> error + string) \<Rightarrow> tool list \<Rightarrow>
     ((agent_step \<times> string) list \<Rightarrow> string) \<Rightarrow> run" where
  "agent_executor_run llm assemble tools best_effort =
     orchestration_loop llm assemble tools best_effort 0 []"


section \<open>The form\<close>

text \<open>
  One run of the page script, from the query input to the end. Its inputs are what the
  widgets return: the text of the query input, the text of the key input, and whether
  the submit button was clicked. \<open>st.form_submit_button\<close> returns true on the run that
  follows a click, and a disabled button takes no click. \<open>generate_response\<close> is the
  agent run, a parameter here. The page records the \<open>disabled\<close> flag given to each
  widget, the calls of \<open>generate_response\<close>, what \<open>st.write\<close> and \<open>st.info\<close> showed, and
  the error that ended the run, if any.
\<close>

record page =
  openai_api_key_disabled :: bool
  submit_disabled :: bool
  calls :: "(string \<times> string) list"
  written :: "string list"
  raised :: "error option"

definition form_submit_button :: "bool \<Rightarrow> bool \<Rightarrow> bool" where
  "form_submit_button disabled clicked \<longleftrightarrow> clicked \<and> \<not> disabled"

text \<open>\<open>s.startswith(p)\<close>.\<close>

definition startswith :: "string \<Rightarrow> string \<Rightarrow> bool" where
  "startswith s p \<longleftrightarrow> prefix p s"

definition script ::
    "(string \<Rightarrow> string \<Rightarrow> error + string) \<Rightarrow> string \<Rightarrow> string \<Rightarrow> bool \<Rightarrow> page" where
  "script generate_response query_text openai_api_key clicked =
     (let key_disabled = (query_text = []);
          button_disabled = (query_text = []);
          submitted = form_submit_button button_disabled clicked
      in if submitted \<and> startswith openai_api_key ''sk-'' then
           (case generate_response openai_api_key query_text of
              Inl e \<Rightarrow>
                \<lparr>openai_api_key_disabled = key_disabled, submit_disabled = button_disabled,
                 calls = [(openai_api_key, query_text)], written = [], raised = Some e\<rparr>
            | Inr response \<Rightarrow>
                (let result = [] @ [response]
                 in \<lparr>openai_api_key_disabled = key_disabled, submit_disabled = button_disabled,
                     calls = [(openai_api_key, query_text)],
                     written = (if length result \<noteq> 0 then [''Here is my response:'', response]
                                else []),
                     raised = None\<rparr>))
         else
           (let result = ([] :: string list)
            in \<lparr>openai_api_key_disabled = key_disabled, submit_disabled = button_disabled,
                calls = [],
                written = (if length result \<noteq> 0 then [''Here is my response:''] else []),
                raised = None\<rparr>))"


section \<open>Facts about the string operations\<close>

lemma find_py_bound: "find_py sub s = Some i \<Longrightarrow> i + length sub \<le> length s"
proof (induction s arbitrary: i)
  case Nil
  then show ?case by (simp split: if_splits)
next
  case (Cons c cs)
  then show ?case by (auto split: if_splits dest: prefix_length_le)
qed

lemma find_py_Some: "find_py sub s = Some i \<Longrightarrow> \<exists>b. s = take i s @ sub @ b"
proof (induction s arbitrary: i)
  case Nil
  then show ?case by (simp split: if_splits)
next
  case (Cons c cs)
  then show ?case by (auto split: if_splits simp: prefix_def)
qed

lemma find_py_least: "find_py sub s = Some i \<Longrightarrow> s = a @ sub @ b \<Longrightarrow> i \<le> length a"
proof (induction s arbitrary: i a)
  case Nil
  then show ?case by (simp split: if_splits)
next
  case (Cons c cs)
  show ?case
  proof (cases a)
    case Nil
    from Cons.prems(2) Nil have "prefix sub (c # cs)" by simp
    with Cons.prems(1) have "i = 0" by simp
    then show ?thesis by simp
  next
    case (Cons x a')
    with Cons.prems Cons.IH [of _ a'] show ?thesis by (auto split: if_splits)
  qed
qed

lemma find_py_None: "find_py sub s = None \<Longrightarrow> s \<noteq> a @ sub @ b"
proof (induction s arbitrary: a)
  case Nil
  then show ?case by (auto split: if_splits)
next
  case (Cons c cs)
  show ?case
  proof (cases a)
    case Nil
    with Cons.prems show ?thesis by (auto split: if_splits)
  next
    case (Cons x a')
    with Cons.prems Cons.IH [of a'] show ?thesis by (auto split: if_splits)
  qed
qed

lemma contains_py_iff: "contains_py sub s \<longleftrightarrow> (\<exists>a b. s = a @ sub @ b)"
  unfolding contains_py_def
  using find_py_None [of sub s] find_py_Some [of sub s]
  by (cases "find_py sub s") auto

lemma no_overlap:
  assumes "sep \<noteq> []" and "hd sep \<notin> set (tl sep)"
    and eq: "a @ sep @ b = pre @ sep @ post" and lt: "length a < length pre"
  shows "length a + length sep \<le> length pre"
proof (rule ccontr)
  assume "\<not> length a + length sep \<le> length pre"
  then have d: "length pre - length a < length sep" "0 < length pre - length a"
    using lt by auto
  have "(a @ sep @ b) ! length pre = sep ! (length pre - length a)"
    using d lt by (simp add: nth_append)
  moreover have "(pre @ sep @ post) ! length pre = hd sep"
    using assms(1) by (cases sep) (simp_all add: nth_append)
  moreover have "sep ! (length pre - length a) \<in> set (tl sep)"
  proof -
    have "sep ! (length pre - length a) = tl sep ! (length pre - length a - 1)"
      using d by (cases sep) (auto simp: nth_Cons')
    moreover have "length pre - length a - 1 < length (tl sep)"
      using d by simp
    ultimately show ?thesis by (metis nth_mem)
  qed
  ultimately show False
    using eq assms(2) by simp
qed

lemma split_from_last:
  assumes "sep \<noteq> []" and "hd sep \<notin> set (tl sep)"
    and "s = pre @ sep @ post" and "\<not> contains_py sep post"
  shows "last (split_from sep s) = post"
  using assms
proof (induction sep s arbitrary: pre rule: split_from.induct)
  case (1 sep s)
  from "1.prems"(3) obtain i where i: "find_py sep s = Some i"
    using find_py_None [of sep s pre post] by (cases "find_py sep s") auto
  from find_py_Some [OF i] obtain b where b: "s = take i s @ sep @ b" ..
  have len: "length (take i s) = i"
    using find_py_bound [OF i] by simp
  have le: "i \<le> length pre"
    using find_py_least [OF i "1.prems"(3)] .
  have unfold: "split_from sep s = take i s # split_from sep (drop (i + length sep) s)"
    using i "1.prems"(1) by (subst split_from.simps) simp
  have rest: "drop (i + length sep) s = b"
    using b len by (metis append_eq_conv_conj drop_drop add.commute)
  show ?case
  proof (cases "i = length pre")
    case True
    then have "take i s = pre" using "1.prems"(3) by simp
    with b "1.prems"(3) have "pre @ sep @ b = pre @ sep @ post" by metis
    then have "b = post" by simp
    moreover have "split_from sep post = [post]"
      using "1.prems"(4) by (subst split_from.simps) (simp add: contains_py_def)
    ultimately show ?thesis using unfold rest by simp
  next
    case False
    with le have lt: "i < length pre" by simp
    have "take i s @ sep @ b = pre @ sep @ post"
      by (rule trans [OF b [symmetric] "1.prems"(3)])
    from no_overlap [OF "1.prems"(1,2) this] lt len
    have "i + length sep \<le> length pre" by simp
    then have "drop (i + length sep) s = drop (i + length sep) pre @ sep @ post"
      using "1.prems"(3) by simp
    from "1.IH" [OF i "1.prems"(1) "1.prems"(1,2) this "1.prems"(4)]
    have "last (split_from sep (drop (i + length sep) s)) = post" .
    moreover have "split_from sep (drop (i + length sep) s) \<noteq> []"
      by (subst split_from.simps) (simp split: option.splits)
    ultimately show ?thesis using unfold by simp
  qed
qed

section \<open>Facts about the backtracking matcher\<close>

lemma first_some_None: "first_some f xs = None \<longleftrightarrow> (\<forall>x\<in>set xs. f x = None)"
  by (induction xs) (auto split: option.splits)

lemma first_some_Some:
  "first_some f xs = Some y \<longleftrightarrow>
     (\<exists>i<length xs. f (xs ! i) = Some y \<and> (\<forall>j<i. f (xs ! j) = None))"
proof (induction xs)
  case Nil
  then show ?case by simp
next
  case (Cons x xs)
  show ?case
  proof (cases "f x")
    case None
    have "(\<exists>i<length (x # xs). f ((x # xs) ! i) = Some y \<and> (\<forall>j<i. f ((x # xs) ! j) = None))
        \<longleftrightarrow> (\<exists>i<length xs. f (xs ! i) = Some y \<and> (\<forall>j<i. f (xs ! j) = None))"
      (is "?L \<longleftrightarrow> ?R")
    proof
      assume ?L
      then obtain i where i: "i < length (x # xs)" "f ((x # xs) ! i) = Some y"
        "\<forall>j<i. f ((x # xs) ! j) = None" by blast
      with None obtain i' where "i = Suc i'" by (cases i) auto
      with i have "i' < length xs \<and> f (xs ! i') = Some y \<and> (\<forall>j<i'. f (xs ! j) = None)"
        by auto
      then show ?R by blast
    next
      assume ?R
      then obtain i where i: "i < length xs" "f (xs ! i) = Some y" "\<forall>j<i. f (xs ! j) = None"
        by blast
      have "\<forall>j<Suc i. f ((x # xs) ! j) = None"
        using i(3) None by (auto simp: nth_Cons')
      with i(1,2) show ?L by (intro exI [of _ "Suc i"]) simp
    qed
    with None Cons.IH show ?thesis by simp
  next
    case (Some z)
    then show ?thesis by (auto intro: exI [of _ 0] simp: nth_Cons' split: if_splits)
  qed
qed

lemma first_some_upt:
  "first_some f [0..<n] = Some y \<longleftrightarrow> (\<exists>i<n. f i = Some y \<and> (\<forall>j<i. f j = None))"
  unfolding first_some_Some by auto

lemma first_some_map: "first_some f (map g xs) = first_some (\<lambda>x. f (g x)) xs"
  by (induction xs) (auto split: option.splits)

lemma first_some_append:
  "first_some f (xs @ ys) = (case first_some f xs of Some y \<Rightarrow> Some y | None \<Rightarrow> first_some f ys)"
  by (induction xs) (auto split: option.splits)

lemma first_some_concat:
  "first_some f (concat xss) = first_some (\<lambda>xs. first_some f xs) xss"
  by (induction xss) (auto simp: first_some_append split: option.splits)

lemma first_some_same:
  "xs \<noteq> [] \<Longrightarrow> \<forall>x\<in>set xs. x = q \<Longrightarrow> first_some f xs = f q"
  by (induction xs) (auto split: option.splits simp: first_some_None)

lemma match_here_plain:
  "match_here (map Plain as @ r) s = first_some (\<lambda>e. match_here r (drop e s)) (ends as s)"
proof (induction as arbitrary: s)
  case Nil
  then show ?case by (simp split: option.splits)
next
  case (Cons a as)
  then show ?case
    by (simp add: first_some_concat first_some_map add.commute)
qed

lemma takeWhile_length_iff:
  "k \<le> length (takeWhile p s) \<longleftrightarrow> k \<le> length s \<and> list_all p (take k s)"
proof (induction s arbitrary: k)
  case Nil
  then show ?case by simp
next
  case (Cons c cs)
  then show ?case by (cases k) auto
qed

lemma lens_iff: "k \<in> set (lens a s) \<longleftrightarrow> k \<le> length s \<and> atom_lang a (take k s)"
proof (cases a)
  case (Lit l)
  have "prefix l s \<and> k = length l \<longleftrightarrow> k \<le> length s \<and> take k s = l"
    by (auto simp: prefix_def intro: exI [of _ "drop k s"])
  with Lit show ?thesis by auto
next
  case (Star p)
  then show ?thesis
    using takeWhile_length_iff [of k p s] by (auto simp: less_Suc_eq_le)
next
  case (LazyStar p)
  then show ?thesis
    using takeWhile_length_iff [of k p s] by (auto simp: less_Suc_eq_le)
qed

lemma ends_iff: "e \<in> set (ends as s) \<longleftrightarrow> e \<le> length s \<and> atoms_lang as (take e s)"
proof (induction as arbitrary: s e)
  case Nil
  then show ?case by auto
next
  case (Cons a as)
  have "e \<in> set (ends (a # as) s) \<longleftrightarrow>
      (\<exists>k e'. k \<in> set (lens a s) \<and> e = k + e' \<and> e' \<in> set (ends as (drop k s)))"
    by auto
  also have "\<dots> \<longleftrightarrow> (\<exists>k e'. k \<le> length s \<and> atom_lang a (take k s) \<and> e = k + e' \<and>
      e' \<le> length s - k \<and> atoms_lang as (take e' (drop k s)))"
    by (simp add: lens_iff Cons.IH)
  also have "\<dots> \<longleftrightarrow> e \<le> length s \<and> atoms_lang (a # as) (take e s)" (is "?L \<longleftrightarrow> ?R")
  proof
    assume ?L
    then obtain k e' where k: "k \<le> length s" "atom_lang a (take k s)" "e = k + e'"
      "e' \<le> length s - k" "atoms_lang as (take e' (drop k s))" by blast
    have "take e s = take k s @ take e' (drop k s)"
      using k(3) by (simp add: take_add)
    with k show ?R by auto
  next
    assume ?R
    then obtain w h' where w: "e \<le> length s" "take e s = w @ h'" "atom_lang a w"
      "atoms_lang as h'" by auto
    have "length (take e s) = length (w @ h')"
      using w(2) by simp
    with w(1) have len: "length w + length h' = e"
      by simp
    have "take (length w) (take e s) = w"
      using w(2) by simp
    with len have w_eq: "take (length w) s = w"
      by (simp add: min_def split: if_splits)
    have "drop (length w) (take e s) = h'"
      using w(2) by simp
    with len have h_eq: "take (length h') (drop (length w) s) = h'"
      by (auto simp: drop_take)
    show ?L
      using w len w_eq h_eq
      by (intro exI [of _ "length w"] exI [of _ "length h'"]) auto
  qed
  finally show ?case .
qed

lemma regex_split:
  "regex = map Plain action_atoms @ Group (LazyStar dot_all) # input_items"
  by (simp add: regex_def action_atoms_def input_items_def input_atoms_def tail_items_def)

lemma atoms_lang_ConsI:
  "atom_lang a w \<Longrightarrow> atoms_lang as h' \<Longrightarrow> atoms_lang (a # as) (w @ h')"
  by auto

lemma atoms_lang_last: "atom_lang a w \<Longrightarrow> atoms_lang [a] w"
  by auto

lemma atoms_lang_ConsE:
  assumes "atoms_lang (a # as) h"
  obtains w h' where "h = w @ h'" and "atom_lang a w" and "atoms_lang as h'"
  using assms by auto

lemma atoms_lang_action: "atoms_lang action_atoms h \<longleftrightarrow> action_header h"
proof
  assume "atoms_lang action_atoms h"
  then show "action_header h"
    unfolding action_atoms_def action_header_def
    by (elim atoms_lang_ConsE) (simp only: atom_lang.simps atoms_lang.simps(1) append_Nil2, blast)
next
  assume "action_header h"
  then obtain w1 d w2 where "list_all isspace w1" "list_all isdecimal d" "list_all isspace w2"
    "h = ''Action'' @ w1 @ d @ w2 @ '':''"
    unfolding action_header_def by blast
  then show "atoms_lang action_atoms h"
    unfolding action_atoms_def
    by (auto intro!: atoms_lang_ConsI atoms_lang_last simp del: atoms_lang.simps append.simps)
qed


lemma atoms_lang_input:
  "atoms_lang input_atoms h \<longleftrightarrow> (\<exists>h2. h = ''\<newline>'' @ h2 \<and> input_header h2)"
proof
  assume "atoms_lang input_atoms h"
  then have "\<exists>w1 d1 w2 w3 d2 w4. list_all isspace w1 \<and> list_all isdecimal d1 \<and>
      list_all isspace w2 \<and> list_all isspace w3 \<and> list_all isdecimal d2 \<and> list_all isspace w4 \<and>
      h = ''\<newline>Action'' @ w1 @ d1 @ w2 @ ''Input'' @ w3 @ d2 @ w4 @ '':''"
    unfolding input_atoms_def
    by (elim atoms_lang_ConsE) (simp only: atom_lang.simps atoms_lang.simps(1) append_Nil2, blast)
  then obtain w1 d1 w2 w3 d2 w4 where *: "list_all isspace w1" "list_all isdecimal d1"
    "list_all isspace w2" "list_all isspace w3" "list_all isdecimal d2" "list_all isspace w4"
    and h: "h = ''\<newline>Action'' @ w1 @ d1 @ w2 @ ''Input'' @ w3 @ d2 @ w4 @ '':''"
    by blast
  have "input_header (''Action'' @ w1 @ d1 @ w2 @ ''Input'' @ w3 @ d2 @ w4 @ '':'')"
    unfolding input_header_def using * by blast
  moreover have "h = ''\<newline>'' @ (''Action'' @ w1 @ d1 @ w2 @ ''Input'' @ w3 @ d2 @ w4 @ '':'')"
    using h by simp
  ultimately show "\<exists>h2. h = ''\<newline>'' @ h2 \<and> input_header h2" by blast
next
  assume "\<exists>h2. h = ''\<newline>'' @ h2 \<and> input_header h2"
  then obtain w1 d1 w2 w3 d2 w4 where *: "list_all isspace w1" "list_all isdecimal d1"
    "list_all isspace w2" "list_all isspace w3" "list_all isdecimal d2" "list_all isspace w4"
    and "h = ''\<newline>'' @ ''Action'' @ w1 @ d1 @ w2 @ ''Input'' @ w3 @ d2 @ w4 @ '':''"
    unfolding input_header_def by blast
  then have h: "h = ''\<newline>Action'' @ w1 @ d1 @ w2 @ ''Input'' @ w3 @ d2 @ w4 @ '':''"
    by simp
  show "atoms_lang input_atoms h"
    unfolding input_atoms_def h using *
    by (auto intro!: atoms_lang_ConsI atoms_lang_last simp del: atoms_lang.simps append.simps)
qed

lemma colon_not_space: "\<not> isspace (CHR '':'')"
  by (simp add: isspace_def)

lemma colon_not_decimal: "\<not> isdecimal (CHR '':'')"
  by (simp add: isdecimal_def)

lemma no_colon_space: "list_all isspace w \<Longrightarrow> CHR '':'' \<notin> set w"
  using colon_not_space by (auto simp: list_all_iff)

lemma no_colon_decimal: "list_all isdecimal w \<Longrightarrow> CHR '':'' \<notin> set w"
  using colon_not_decimal by (auto simp: list_all_iff)

lemma action_header_form: "action_header h \<Longrightarrow> header_form h"
  unfolding action_header_def header_form_def
  by (auto dest!: no_colon_space no_colon_decimal)

lemma input_header_form: "input_header h \<Longrightarrow> header_form h"
  unfolding input_header_def header_form_def
  by (auto dest!: no_colon_space no_colon_decimal)

lemma header_form_unique:
  assumes "header_form h" and "header_form h'" and "h @ r = h' @ r'"
  shows "h = h'"
proof -
  from assms(1) obtain u where u: "h = ''Action'' @ u @ '':''" "CHR '':'' \<notin> set u"
    unfolding header_form_def by blast
  from assms(2) obtain u' where u': "h' = ''Action'' @ u' @ '':''" "CHR '':'' \<notin> set u'"
    unfolding header_form_def by blast
  from assms(3) u(1) u'(1) have eq: "u @ CHR '':'' # r = u' @ CHR '':'' # r'"
    by simp
  have "takeWhile (\<lambda>c. c \<noteq> CHR '':'') (u @ CHR '':'' # r) = u"
    by (subst takeWhile_append2) (use u(2) in auto)
  moreover have "takeWhile (\<lambda>c. c \<noteq> CHR '':'') (u' @ CHR '':'' # r') = u'"
    by (subst takeWhile_append2) (use u'(2) in auto)
  ultimately have "u = u'" using eq by simp
  with u(1) u'(1) show ?thesis by simp
qed

lemma match_here_tail: "match_here tail_items s = Some [dropWhile isspace s]"
proof -
  have all: "takeWhile dot_all t = t" for t
    by (simp add: dot_all_def)
  have group: "match_here [Group (Star dot_all)] t = Some [t]" for t
    by (simp add: all)
  show ?thesis
    by (simp add: tail_items_def group dropWhile_eq_drop del: match_here.simps(3))
qed

lemma ends_input_unique:
  assumes "input_header h2" and "e \<in> set (ends input_atoms (''\<newline>'' @ h2 @ inp))"
  shows "e = Suc (length h2)"
proof -
  let ?v = "''\<newline>'' @ h2 @ inp"
  from assms(2) have "atoms_lang input_atoms (take e ?v)" and le: "e \<le> length ?v"
    by (simp_all add: ends_iff)
  then obtain h2' where h2': "take e ?v = ''\<newline>'' @ h2'" "input_header h2'"
    unfolding atoms_lang_input by blast
  have "?v = take e ?v @ drop e ?v" by simp
  with h2'(1) have "''\<newline>'' @ h2 @ inp = ''\<newline>'' @ h2' @ drop e ?v"
    by (metis append.assoc)
  then have "h2 @ inp = h2' @ drop e ?v" by simp
  from header_form_unique [OF input_header_form [OF assms(1)] input_header_form [OF h2'(2)] this]
  have "h2 = h2'" .
  with h2'(1) have "length (take e ?v) = Suc (length h2)" by simp
  with le show ?thesis by simp
qed

lemma ends_input_mem:
  assumes "input_header h2"
  shows "Suc (length h2) \<in> set (ends input_atoms (''\<newline>'' @ h2 @ inp))"
proof -
  have "take (Suc (length h2)) (''\<newline>'' @ h2 @ inp) = ''\<newline>'' @ h2" by simp
  with assms show ?thesis
    unfolding ends_iff atoms_lang_input by auto
qed

lemma match_here_input:
  assumes "input_header h2"
  shows "match_here input_items (''\<newline>'' @ h2 @ inp) = Some [dropWhile isspace inp]"
proof -
  let ?v = "''\<newline>'' @ h2 @ inp"
  have "ends input_atoms ?v \<noteq> []"
    using ends_input_mem [OF assms, of inp] by auto
  moreover have "\<forall>e\<in>set (ends input_atoms ?v). e = Suc (length h2)"
    using ends_input_unique [OF assms] by blast
  ultimately have "match_here input_items ?v = match_here tail_items (drop (Suc (length h2)) ?v)"
    unfolding input_items_def match_here_plain by (rule first_some_same)
  then show ?thesis by (simp add: match_here_tail)
qed

lemma match_here_input_sound:
  assumes "match_here input_items v = Some gs"
  shows "\<exists>h2 inp. input_header h2 \<and> v = ''\<newline>'' @ h2 @ inp"
proof -
  from assms have "first_some (\<lambda>e. match_here tail_items (drop e v)) (ends input_atoms v) \<noteq> None"
    unfolding input_items_def match_here_plain by simp
  then obtain e where "e \<in> set (ends input_atoms v)"
    unfolding first_some_None by blast
  then have "atoms_lang input_atoms (take e v)"
    by (simp add: ends_iff)
  then obtain h2 where "take e v = ''\<newline>'' @ h2" "input_header h2"
    unfolding atoms_lang_input by blast
  moreover have "v = take e v @ drop e v" by simp
  ultimately have "v = ''\<newline>'' @ h2 @ drop e v \<and> input_header h2"
    by (metis append.assoc)
  then show ?thesis by blast
qed

lemma match_here_action:
  assumes "action_header h1"
  shows "match_here regex (h1 @ u) = match_here (Group (LazyStar dot_all) # input_items) u"
proof -
  let ?t = "h1 @ u"
  have "take (length h1) ?t = h1" by simp
  with assms have "length h1 \<in> set (ends action_atoms ?t)"
    unfolding ends_iff atoms_lang_action by auto
  then have nonempty: "ends action_atoms ?t \<noteq> []" by auto
  have same: "\<forall>e\<in>set (ends action_atoms ?t). e = length h1"
  proof
    fix e assume "e \<in> set (ends action_atoms ?t)"
    then have h: "action_header (take e ?t)" and le: "e \<le> length ?t"
      by (simp_all add: ends_iff atoms_lang_action)
    have "h1 @ u = take e ?t @ drop e ?t"
      by (rule append_take_drop_id [symmetric])
    from header_form_unique [OF action_header_form [OF assms] action_header_form [OF h] this]
    have "h1 = take e ?t" .
    then have "length (take e ?t) = length h1" by simp
    with le show "e = length h1" by (simp add: min_def split: if_splits)
  qed
  have "match_here regex ?t =
      match_here (Group (LazyStar dot_all) # input_items) (drop (length h1) ?t)"
    unfolding regex_split match_here_plain using nonempty same by (rule first_some_same)
  then show ?thesis by simp
qed

lemma match_here_action_sound:
  assumes "match_here regex t = Some gs"
  shows "\<exists>h1 u. action_header h1 \<and> t = h1 @ u"
proof -
  from assms have "first_some (\<lambda>e. match_here (Group (LazyStar dot_all) # input_items) (drop e t))
      (ends action_atoms t) \<noteq> None"
    unfolding regex_split match_here_plain by simp
  then obtain e where "e \<in> set (ends action_atoms t)"
    unfolding first_some_None by blast
  then have "action_header (take e t)"
    by (simp add: ends_iff atoms_lang_action)
  moreover have "t = take e t @ drop e t" by simp
  ultimately show ?thesis by blast
qed

lemma match_here_lazy:
  "match_here (Group (LazyStar dot_all) # r) u =
     first_some (\<lambda>k. map_option ((#) (take k u)) (match_here r (drop k u))) [0..<Suc (length u)]"
proof -
  have "takeWhile dot_all u = u" by (simp add: dot_all_def)
  then show ?thesis by (simp only: match_here.simps lens.simps)
qed

lemma action_shape_iff:
  "action_shape s pre act inp \<longleftrightarrow> (\<exists>t. s = pre @ t \<and> shape_here t act inp)"
  unfolding action_shape_def shape_here_def by blast

lemma first_some_not_None: "x \<in> set xs \<Longrightarrow> f x \<noteq> None \<Longrightarrow> first_some f xs \<noteq> None"
  by (auto simp: first_some_None)

lemma match_here_shape:
  assumes "shape_here t act inp"
  shows "match_here regex t \<noteq> None"
proof -
  from assms obtain h1 h2 where h: "action_header h1" "input_header h2"
    and t: "t = h1 @ act @ ''\<newline>'' @ h2 @ inp"
    unfolding shape_here_def by blast
  let ?u = "act @ ''\<newline>'' @ h2 @ inp"
  let ?F = "\<lambda>k. map_option ((#) (take k ?u)) (match_here input_items (drop k ?u))"
  have "length act \<in> set [0..<Suc (length ?u)]"
    by simp
  moreover have "?F (length act) \<noteq> None"
    using match_here_input [OF h(2), of inp] by simp
  ultimately have "first_some ?F [0..<Suc (length ?u)] \<noteq> None"
    by (rule first_some_not_None)
  then show ?thesis
    unfolding t match_here_action [OF h(1)] match_here_lazy .
qed

lemma match_here_regex_result:
  assumes "match_here regex t = Some gs"
  shows "\<exists>act inp. shape_here t act inp \<and> gs = [act, dropWhile isspace inp] \<and>
           (\<forall>act' inp'. shape_here t act' inp' \<longrightarrow> length act \<le> length act')"
proof -
  from match_here_action_sound [OF assms] obtain h1 u
    where h1: "action_header h1" and t: "t = h1 @ u" by blast
  let ?F = "\<lambda>k. map_option ((#) (take k u)) (match_here input_items (drop k u))"
  from assms have "first_some ?F [0..<Suc (length u)] = Some gs"
    unfolding t match_here_action [OF h1] match_here_lazy .
  then obtain k where k: "k < Suc (length u)" "?F k = Some gs" "\<forall>j<k. ?F j = None"
    unfolding first_some_upt by blast
  define act where "act = take k u"
  have act_len: "length act = k"
    using k(1) by (simp add: act_def)
  from k(2) obtain gs' where gs': "match_here input_items (drop k u) = Some gs'"
    and gs: "gs = act # gs'" by (auto simp: act_def)
  from match_here_input_sound [OF gs'] obtain h2 inp
    where h2: "input_header h2" and rest: "drop k u = ''\<newline>'' @ h2 @ inp" by blast
  from gs' have "gs' = [dropWhile isspace inp]"
    unfolding rest match_here_input [OF h2] by simp
  with gs have result: "gs = [act, dropWhile isspace inp]" by simp
  have u: "u = act @ ''\<newline>'' @ h2 @ inp"
    using append_take_drop_id [of k u] unfolding rest act_def by (rule sym)
  have shape: "shape_here t act inp"
    unfolding shape_here_def using h1 h2 t u by blast
  have least: "length act \<le> length act'" if "shape_here t act' inp'" for act' inp'
  proof (rule ccontr)
    assume "\<not> length act \<le> length act'"
    with act_len have lt: "length act' < k" by simp
    from that obtain h1' h2' where h': "action_header h1'" "input_header h2'"
      and t': "t = h1' @ act' @ ''\<newline>'' @ h2' @ inp'"
      unfolding shape_here_def by blast
    have "h1 @ u = h1' @ act' @ ''\<newline>'' @ h2' @ inp'"
      by (rule trans [OF t [symmetric] t'])
    from header_form_unique [OF action_header_form [OF h1] action_header_form [OF h'(1)] this]
    have "h1 = h1'" .
    with \<open>h1 @ u = h1' @ act' @ ''\<newline>'' @ h2' @ inp'\<close>
    have u': "u = act' @ ''\<newline>'' @ h2' @ inp'" by simp
    have "?F (length act') \<noteq> None"
      unfolding u' using match_here_input [OF h'(2), of inp'] by simp
    moreover have "?F (length act') = None"
      using k(3) [rule_format, OF lt] .
    ultimately show False by (rule notE)
  qed
  from shape result least show ?thesis by blast
qed

lemma search_regex_shape:
  assumes "action_shape s pre act inp"
  shows "search regex s \<noteq> None"
proof -
  from assms obtain t where s: "s = pre @ t" and "shape_here t act inp"
    unfolding action_shape_iff by blast
  then have "match_here regex (drop (length pre) s) \<noteq> None"
    using match_here_shape by simp
  with s have "(\<lambda>i. match_here regex (drop i s)) (length pre) \<noteq> None"
    by simp
  moreover have "length pre \<in> set [0..<Suc (length s)]"
    using s by simp
  ultimately show ?thesis
    unfolding search_def by (intro first_some_not_None)
qed

lemma search_regex_result:
  assumes "search regex s = Some gs"
  shows "\<exists>pre act inp. action_shape s pre act inp \<and> gs = [act, dropWhile isspace inp] \<and>
           (\<forall>pre' act' inp'. action_shape s pre' act' inp' \<longrightarrow>
              length pre < length pre' \<or> (pre' = pre \<and> length act \<le> length act'))"
proof -
  let ?F = "\<lambda>i. match_here regex (drop i s)"
  from assms obtain i where i: "i < Suc (length s)" "?F i = Some gs" "\<forall>j<i. ?F j = None"
    unfolding search_def first_some_upt by blast
  define pre where "pre = take i s"
  from match_here_regex_result [OF i(2)] obtain act inp
    where shape: "shape_here (drop i s) act inp" and gs: "gs = [act, dropWhile isspace inp]"
      and least: "\<forall>act' inp'. shape_here (drop i s) act' inp' \<longrightarrow> length act \<le> length act'"
    by blast
  have s: "s = pre @ drop i s"
    by (simp add: pre_def)
  have len: "length pre = i"
    using i(1) by (simp add: pre_def)
  from s shape have "action_shape s pre act inp"
    unfolding action_shape_iff by blast
  moreover have "length pre < length pre' \<or> (pre' = pre \<and> length act \<le> length act')"
    if "action_shape s pre' act' inp'" for pre' act' inp'
  proof -
    from that obtain t where t: "s = pre' @ t" "shape_here t act' inp'"
      unfolding action_shape_iff by blast
    then have here: "shape_here (drop (length pre') s) act' inp'" by simp
    then have "?F (length pre') \<noteq> None" by (rule match_here_shape)
    with i(3) have le: "i \<le> length pre'" by (meson not_le_imp_less)
    show ?thesis
    proof (cases "i = length pre'")
      case True
      with t(1) have "pre' = pre" by (simp add: pre_def)
      moreover from True here least have "length act \<le> length act'" by blast
      ultimately show ?thesis by blast
    next
      case False
      with le len show ?thesis by simp
    qed
  qed
  ultimately show ?thesis using gs by blast
qed

lemma action_header_plain: "action_header ''Action:''"
  unfolding action_header_def
  by (intro exI [of _ "[]"]) simp

lemma input_header_plain: "input_header ''Action Input:''"
  unfolding input_header_def
  by (rule exI [of _ "'' ''"], intro exI [of _ "[]"]) (simp add: isspace_def)


section \<open>Facts about the template formatter\<close>

lemma foldl_two_appends:
  "foldl (\<lambda>acc (a, b). (acc @ f a) @ g b) acc xs = acc @ concat (map (\<lambda>(a, b). f a @ g b) xs)"
  by (induction xs arbitrary: acc) auto

lemma agent_scratchpad_concat:
  "agent_scratchpad steps =
     concat (map (\<lambda>(action, observation).
           log action @ ''\<newline>Observation: '' @ observation @ ''\<newline>Thought: '') steps)"
  unfolding agent_scratchpad_def
  by (simp only: foldl_two_appends append_Nil)

lemma emit_emit: "emit a (emit b x) = emit (a @ b) x"
  by (cases x) (simp_all add: emit_def)

lemma format_from_text:
  "CHR ''{'' \<notin> set t \<Longrightarrow> CHR ''}'' \<notin> set t \<Longrightarrow>
     format_from kwargs None (t @ r) = emit t (format_from kwargs None r)"
proof (induction t)
  case Nil
  show ?case by (cases "format_from kwargs None r") (simp_all add: emit_def)
next
  case (Cons c t)
  then show ?case by (auto simp: emit_emit)
qed

lemma format_from_name:
  "CHR ''}'' \<notin> set f \<Longrightarrow>
     format_from kwargs (Some acc) (f @ CHR ''}'' # r) =
       (case kwargs (acc @ f) of
          None \<Rightarrow> Inl (KeyError (acc @ f))
        | Some v \<Rightarrow> emit v (format_from kwargs None r))"
  by (induction f arbitrary: acc) (auto split: option.splits)

lemma format_from_field:
  assumes "f \<noteq> []" and "hd f \<noteq> CHR ''{''" and "CHR ''}'' \<notin> set f" and "kwargs f = Some v"
  shows "format_from kwargs None (CHR ''{'' # f @ CHR ''}'' # r) =
           emit v (format_from kwargs None r)"
proof -
  from assms(1) obtain c f' where f: "f = c # f'" by (cases f) auto
  with assms(2) have "format_from kwargs None (CHR ''{'' # f @ CHR ''}'' # r) =
      format_from kwargs (Some []) (f @ CHR ''}'' # r)"
    by simp
  with assms(3,4) show ?thesis
    by (simp add: format_from_name)
qed

lemma format_from_segment:
  assumes "CHR ''{'' \<notin> set t" and "CHR ''}'' \<notin> set t"
    and "f \<noteq> []" and "hd f \<noteq> CHR ''{''" and "CHR ''}'' \<notin> set f" and "kwargs f = Some v"
  shows "format_from kwargs None (t @ CHR ''{'' # f @ CHR ''}'' # r) =
           emit (t @ v) (format_from kwargs None r)"
  using assms by (simp add: format_from_text format_from_field emit_emit del: format_from.simps)

lemma format_four_fields:
  assumes t1: "CHR ''{'' \<notin> set t1" "CHR ''}'' \<notin> set t1"
    and t2: "CHR ''{'' \<notin> set t2" "CHR ''}'' \<notin> set t2"
    and t3: "CHR ''{'' \<notin> set t3" "CHR ''}'' \<notin> set t3"
    and t4: "CHR ''{'' \<notin> set t4" "CHR ''}'' \<notin> set t4"
    and tools: "tools_getter input = Inr tools"
  shows "format (t1 @ ''{tools}'' @ t2 @ ''{tool_names}'' @ t3 @ ''{input}'' @ t4 @
             ''{agent_scratchpad}'')
           tools_getter input intermediate_steps =
         Inr (t1 @ join ''\<newline>'' (map (\<lambda>tool. name tool @ '': '' @ description tool) tools) @
              t2 @ join '', '' (map name tools) @ t3 @ input @ t4 @
              agent_scratchpad intermediate_steps)"
    (is "format ?t _ _ _ = Inr (_ @ ?lines @ _ @ ?names @ _ @ _ @ _ @ ?pad)")
proof -
  define kwargs where "kwargs =
    [''input'' \<mapsto> input, ''agent_scratchpad'' \<mapsto> ?pad, ''tools'' \<mapsto> ?lines,
     ''tool_names'' \<mapsto> ?names]"
  have kwargs: "format_kwargs tools_getter input intermediate_steps = Inr kwargs"
    by (simp add: format_kwargs_def tools kwargs_def)
  have fields: "?t =
      t1 @ CHR ''{'' # ''tools'' @ CHR ''}'' #
      t2 @ CHR ''{'' # ''tool_names'' @ CHR ''}'' #
      t3 @ CHR ''{'' # ''input'' @ CHR ''}'' #
      t4 @ CHR ''{'' # ''agent_scratchpad'' @ CHR ''}'' # []"
    by simp
  have s4: "format_from kwargs None (t4 @ CHR ''{'' # ''agent_scratchpad'' @ CHR ''}'' # []) =
      Inr (t4 @ ?pad)"
    by (subst format_from_segment [where v = ?pad]) (simp_all add: kwargs_def emit_def t4)
  have s3: "format_from kwargs None (t3 @ CHR ''{'' # ''input'' @ CHR ''}'' # r) =
      emit (t3 @ input) (format_from kwargs None r)" for r
    by (subst format_from_segment [where v = input]) (simp_all add: kwargs_def t3)
  have s2: "format_from kwargs None (t2 @ CHR ''{'' # ''tool_names'' @ CHR ''}'' # r) =
      emit (t2 @ ?names) (format_from kwargs None r)" for r
    by (subst format_from_segment [where v = ?names]) (simp_all add: kwargs_def t2)
  have s1: "format_from kwargs None (t1 @ CHR ''{'' # ''tools'' @ CHR ''}'' # r) =
      emit (t1 @ ?lines) (format_from kwargs None r)" for r
    by (subst format_from_segment [where v = ?lines]) (simp_all add: kwargs_def t1)
  have "format_str ?t kwargs =
      Inr ((t1 @ ?lines) @ (t2 @ ?names) @ (t3 @ input) @ t4 @ ?pad)"
    unfolding format_str_def fields s1 s2 s3 s4 by (simp add: emit_def)
  then show ?thesis
    unfolding format_def kwargs by simp
qed

section \<open>Facts about the orchestration loop\<close>

lemma loop_cycles_bound:
  "run_cycles (orchestration_loop llm assemble tools best_effort i steps) \<le> max i max_iterations"
proof (induction llm assemble tools best_effort i steps rule: orchestration_loop.induct)
  case (1 llm assemble tools best_effort iterations steps)
  show ?case
  proof (cases "iterations < max_iterations")
    case False
    then show ?thesis
      by (subst orchestration_loop.simps) simp
  next
    case True
    show ?thesis
    proof (cases "assemble steps")
      case (Inl e)
      with True show ?thesis
        by (subst orchestration_loop.simps) simp
    next
      case (Inr prompt)
      note prompt = this
      show ?thesis
      proof (cases "parse (llm prompt)")
        case (Inl e)
        with True prompt show ?thesis
          by (subst orchestration_loop.simps) simp
      next
        case (Inr parsed)
        note step = this
        show ?thesis
        proof (cases parsed)
          case (AgentFinish vals lg)
          with True prompt step show ?thesis
            by (subst orchestration_loop.simps) simp
        next
          case (AgentAction t t_input lg)
          show ?thesis
          proof (cases "find (\<lambda>candidate. name candidate = t) tools")
            case None
            with True prompt step AgentAction show ?thesis
              by (subst orchestration_loop.simps) simp
          next
            case (Some chosen)
            from "1.IH" [OF True prompt step AgentAction Some]
            have "run_cycles (orchestration_loop llm assemble tools best_effort (Suc iterations)
                (steps @ [(AgentAction t t_input lg, func chosen t_input)]))
              \<le> max (Suc iterations) max_iterations" .
            with True prompt step AgentAction Some show ?thesis
              by (subst orchestration_loop.simps) simp
          qed
        qed
      qed
    qed
  qed
qed

lemma loop_reaches_cap:
  assumes prompts: "\<forall>steps. \<exists>prompt. assemble steps = Inr prompt"
    and actions: "\<forall>prompt. \<exists>t t_input text chosen.
        parse (llm prompt) = Inr (AgentAction t t_input text) \<and>
        find (\<lambda>candidate. name candidate = t) tools = Some chosen"
  shows "n + i = max_iterations \<Longrightarrow>
    \<exists>steps'. length steps' = length steps + n \<and>
      orchestration_loop llm assemble tools best_effort i steps =
        \<lparr>run_cycles = max_iterations, run_transcript = steps',
         run_outcome = Inr (best_effort steps')\<rparr>"
proof (induction n arbitrary: i steps)
  case 0
  then show ?case
    by (subst orchestration_loop.simps) simp
next
  case (Suc n)
  then have lt: "i < max_iterations" by simp
  from prompts obtain prompt where prompt: "assemble steps = Inr prompt" by blast
  from actions obtain t t_input lg chosen
    where action: "parse (llm prompt) = Inr (AgentAction t t_input lg)"
      and chosen: "find (\<lambda>candidate. name candidate = t) tools = Some chosen" by blast
  let ?steps = "steps @ [(AgentAction t t_input lg, func chosen t_input)]"
  from Suc.prems have "n + Suc i = max_iterations" by simp
  from Suc.IH [OF this, of ?steps] obtain steps'
    where "length steps' = length ?steps + n"
      and "orchestration_loop llm assemble tools best_effort (Suc i) ?steps =
        \<lparr>run_cycles = max_iterations, run_transcript = steps',
         run_outcome = Inr (best_effort steps')\<rparr>" by blast
  moreover have "orchestration_loop llm assemble tools best_effort i steps =
      orchestration_loop llm assemble tools best_effort (Suc i) ?steps"
    using lt prompt action chosen by (subst orchestration_loop.simps) simp
  ultimately show ?case by auto
qed


section \<open>Facts about the tools getter\<close>

lemma foldl_extend: "foldl (\<lambda>tools tk. tools @ nla_tools tk) acc tks = acc @ concat (map nla_tools tks)"
  by (induction tks arbitrary: acc) auto

lemma mset_concat_map_cong:
  "mset xs = mset ys \<Longrightarrow> mset (concat (map f xs)) = mset (concat (map f ys))"
proof -
  assume eq: "mset xs = mset ys"
  have "mset (concat (map f zs)) = sum_mset (image_mset (\<lambda>z. mset (f z)) (mset zs))" for zs
    by (induction zs) auto
  with eq show ?thesis by simp
qed

lemma toolkits_dict_foldl_dom:
  "plugin \<in> set ps \<Longrightarrow>
     \<exists>tk. foldl (\<lambda>d plugin. d(name_for_model plugin \<mapsto> mk plugin)) m ps
            (name_for_model plugin) = Some tk"
proof (induction ps arbitrary: m rule: rev_induct)
  case Nil
  then show ?case by simp
next
  case (snoc p ps)
  then show ?case by (cases "name_for_model p = name_for_model plugin") auto
qed

lemma toolkits_dict_foldl_distinct:
  "plugin \<in> set ps \<Longrightarrow> distinct (map name_for_model ps) \<Longrightarrow>
     foldl (\<lambda>d plugin. d(name_for_model plugin \<mapsto> mk plugin)) m ps
       (name_for_model plugin) = Some (mk plugin)"
proof (induction ps arbitrary: m rule: rev_induct)
  case Nil
  then show ?case by simp
next
  case (snoc p ps)
  show ?case
  proof (cases "p = plugin")
    case True
    then show ?thesis by simp
  next
    case False
    with snoc.prems have mem: "plugin \<in> set ps" and dist: "distinct (map name_for_model ps)"
      and fresh: "name_for_model p \<notin> name_for_model ` set ps"
      by auto
    from mem fresh have "name_for_model plugin \<noteq> name_for_model p"
      by (metis imageI)
    with snoc.IH [OF mem dist] show ?thesis by simp
  qed
qed

lemma lookup_toolkits_all:
  assumes "\<forall>doc\<in>set ds. \<exists>plugin_name tk.
      metadata doc ''plugin_name'' = Some plugin_name \<and> d plugin_name = Some tk"
  shows "lookup_toolkits d ds =
    Inr (map (\<lambda>doc. the (d (the (metadata doc ''plugin_name'')))) ds)"
  using assms
proof (induction ds)
  case Nil
  then show ?case by simp
next
  case (Cons doc ds)
  from Cons.prems obtain plugin_name tk
    where "metadata doc ''plugin_name'' = Some plugin_name" "d plugin_name = Some tk"
    by auto
  moreover from Cons have "lookup_toolkits d ds =
      Inr (map (\<lambda>doc. the (d (the (metadata doc ''plugin_name'')))) ds)"
    by simp
  ultimately show ?case by (simp add: getitem_def)
qed

lemma docs_lookup:
  assumes "doc \<in> set (docs from_url)"
  shows "\<exists>plugin_name tk. metadata doc ''plugin_name'' = Some plugin_name \<and>
    toolkits_dict mk from_url plugin_name = Some tk"
proof -
  from assms obtain plugin where plugin: "plugin \<in> set (AI_PLUGINS from_url)"
    and doc: "doc = \<lparr>page_content = description_for_model plugin,
      metadata = [''plugin_name'' \<mapsto> name_for_model plugin]\<rparr>"
    unfolding docs_def by auto
  from toolkits_dict_foldl_dom [OF plugin, of mk Map.empty]
  obtain tk where "toolkits_dict mk from_url (name_for_model plugin) = Some tk"
    unfolding toolkits_dict_def by blast
  with doc show ?thesis by simp
qed

lemma retriever_all:
  assumes "mset (rank query (docs from_url)) = mset (docs from_url)"
  shows "mset (get_relevant_documents rank (docs from_url) query) = mset (docs from_url)"
proof -
  have "length (docs from_url) = 3"
    by (simp add: docs_def AI_PLUGINS_def urls_def)
  moreover from assms have "length (rank query (docs from_url)) = length (docs from_url)"
    by (rule mset_eq_length)
  ultimately have "take default_k (rank query (docs from_url)) = rank query (docs from_url)"
    by (simp add: default_k_def)
  with assms show ?thesis
    by (simp add: get_relevant_documents_def)
qed

lemma get_tools_result:
  assumes "mset (rank query (docs from_url)) = mset (docs from_url)"
  shows "\<exists>ts. get_tools (get_relevant_documents rank (docs from_url))
        (toolkits_dict mk from_url) query = Inr ts \<and>
      mset ts = mset (concat (map (\<lambda>doc. nla_tools
          (the (toolkits_dict mk from_url (the (metadata doc ''plugin_name'')))))
        (docs from_url)))"
proof -
  let ?ds = "get_relevant_documents rank (docs from_url) query"
  let ?f = "\<lambda>doc. the (toolkits_dict mk from_url (the (metadata doc ''plugin_name'')))"
  from assms have perm: "mset ?ds = mset (docs from_url)"
    by (rule retriever_all [of rank query from_url])
  then have "set ?ds = set (docs from_url)"
    by (rule mset_eq_setD)
  then have "\<forall>doc\<in>set ?ds. \<exists>plugin_name tk.
      metadata doc ''plugin_name'' = Some plugin_name \<and>
      toolkits_dict mk from_url plugin_name = Some tk"
    using docs_lookup [of _ from_url mk] by blast
  from lookup_toolkits_all [OF this]
  have "get_tools (get_relevant_documents rank (docs from_url)) (toolkits_dict mk from_url) query =
      Inr (concat (map nla_tools (map ?f ?ds)))"
    by (simp add: get_tools_def foldl_extend)
  moreover have "mset (concat (map nla_tools (map ?f ?ds))) =
      mset (concat (map (\<lambda>doc. nla_tools (?f doc)) (docs from_url)))"
    using mset_concat_map_cong [OF perm, of "\<lambda>doc. nla_tools (?f doc)"]
    by (simp add: comp_def)
  ultimately show ?thesis by blast
qed

lemma docs_toolkits_distinct:
  assumes "distinct (map name_for_model (AI_PLUGINS from_url))"
  shows "concat (map (\<lambda>doc. nla_tools
          (the (toolkits_dict mk from_url (the (metadata doc ''plugin_name'')))))
        (docs from_url)) =
      concat (map (\<lambda>plugin. nla_tools (mk plugin)) (AI_PLUGINS from_url))"
proof -
  have "nla_tools (the (toolkits_dict mk from_url (name_for_model plugin))) =
      nla_tools (mk plugin)" if "plugin \<in> set (AI_PLUGINS from_url)" for plugin
    using toolkits_dict_foldl_distinct [OF that assms, of mk Map.empty]
    by (simp add: toolkits_dict_def)
  then have same: "map (\<lambda>plugin. nla_tools (the (toolkits_dict mk from_url (name_for_model plugin))))
      (AI_PLUGINS from_url) = map (\<lambda>plugin. nla_tools (mk plugin)) (AI_PLUGINS from_url)"
    by simp
  have "concat (map (\<lambda>doc. nla_tools
          (the (toolkits_dict mk from_url (the (metadata doc ''plugin_name'')))))
        (docs from_url)) =
      concat (map (\<lambda>plugin. nla_tools (the (toolkits_dict mk from_url (name_for_model plugin))))
        (AI_PLUGINS from_url))"
    by (simp add: docs_def comp_def)
  with same show ?thesis
    by (simp only:)
qed


section \<open>The output parser: final answers\<close>

text \<open>
  Claim C1. Whenever the model's text contains the marker \<open>Final Answer:\<close>, \<open>parse\<close>
  returns an \<open>AgentFinish\<close> whose output is the text after the last occurrence of the
  marker, stripped of surrounding whitespace, and whose log is the whole text. The last
  occurrence is the decomposition \<open>pre @ marker @ post\<close> that no other decomposition
  starts after.
\<close>

theorem parse_final_answer:
  assumes "llm_output = a @ ''Final Answer:'' @ b"
  shows "\<exists>pre post. llm_output = pre @ ''Final Answer:'' @ post \<and>
           (\<forall>a' b'. llm_output = a' @ ''Final Answer:'' @ b' \<longrightarrow> length a' \<le> length pre) \<and>
           parse llm_output = Inr (AgentFinish [(''output'', strip post)] llm_output)"
proof -
  let ?m = "''Final Answer:''"
  let ?P = "\<lambda>n. \<exists>a' b'. llm_output = a' @ ?m @ b' \<and> length a' = n"
  have "?P (length a)" using assms by blast
  moreover have "\<forall>n. ?P n \<longrightarrow> n \<le> length llm_output" by auto
  ultimately obtain n where n: "?P n" and greatest: "\<forall>k. ?P k \<longrightarrow> k \<le> n"
    using Nat.ex_has_greatest_nat [of ?P "length a" "length llm_output"] by blast
  from n obtain pre post where decomp: "llm_output = pre @ ?m @ post" and "length pre = n"
    by blast
  with greatest have last_occurrence:
    "\<forall>a' b'. llm_output = a' @ ?m @ b' \<longrightarrow> length a' \<le> length pre"
    by blast
  have "\<not> contains_py ?m post"
  proof
    assume "contains_py ?m post"
    then obtain x y where "post = x @ ?m @ y"
      unfolding contains_py_iff by blast
    with decomp have "llm_output = (pre @ ?m @ x) @ ?m @ y" by simp
    with last_occurrence have "length (pre @ ?m @ x) \<le> length pre" by blast
    then show False by simp
  qed
  then have "last (split_from ?m llm_output) = post"
    using split_from_last [of ?m llm_output pre post] decomp by simp
  moreover have "contains_py ?m llm_output"
    unfolding contains_py_iff using decomp by blast
  moreover have "split_from ?m llm_output \<noteq> []"
    by (subst split_from.simps) (simp split: option.splits)
  ultimately have "parse llm_output = Inr (AgentFinish [(''output'', strip post)] llm_output)"
    by (cases "split_from ?m llm_output") (simp_all add: parse_def split_py_def last_py_def)
  with decomp last_occurrence show ?thesis by blast
qed

theorem parse_final_answer_witness:
  "(\<exists>pre post.
      ''Thought: x Final Answer: a Final Answer:  b  '' = pre @ ''Final Answer:'' @ post \<and>
      (\<forall>a' b'. ''Thought: x Final Answer: a Final Answer:  b  '' = a' @ ''Final Answer:'' @ b'
         \<longrightarrow> length a' \<le> length pre) \<and>
      parse ''Thought: x Final Answer: a Final Answer:  b  '' =
        Inr (AgentFinish [(''output'', strip post)]
               ''Thought: x Final Answer: a Final Answer:  b  '')) \<and>
   parse ''Thought: x Final Answer: a Final Answer:  b  '' =
     Inr (AgentFinish [(''output'', ''b'')] ''Thought: x Final Answer: a Final Answer:  b  '')"
proof
  show "\<exists>pre post.
      ''Thought: x Final Answer: a Final Answer:  b  '' = pre @ ''Final Answer:'' @ post \<and>
      (\<forall>a' b'. ''Thought: x Final Answer: a Final Answer:  b  '' = a' @ ''Final Answer:'' @ b'
         \<longrightarrow> length a' \<le> length pre) \<and>
      parse ''Thought: x Final Answer: a Final Answer:  b  '' =
        Inr (AgentFinish [(''output'', strip post)]
               ''Thought: x Final Answer: a Final Answer:  b  '')"
    by (rule parse_final_answer [of _ "''Thought: x ''" "'' a Final Answer:  b  ''"]) simp
  show "parse ''Thought: x Final Answer: a Final Answer:  b  '' =
     Inr (AgentFinish [(''output'', ''b'')] ''Thought: x Final Answer: a Final Answer:  b  '')"
    by code_simp
qed

section \<open>The output parser: actions\<close>

text \<open>
  Claim C2, as the specification states it, fails. On the text \<open>Action: X\<close>, a line
  feed, \<open>Action Input:\<close>, a space and \<open>foo\<close> between two pairs of double quotes, the
  parser returns the tool input \<open>foo\<close>: \<open>strip\<close> with a double quote as argument removes
  every double quote at both ends, where the claim removes one pair and keeps \<open>foo\<close> in
  one pair of quotes.
\<close>

theorem parse_action_one_pair_counterexample:
  "action_shape
     (''Action: X\<newline>Action Input: '' @ [CHR 0x22, CHR 0x22] @ ''foo'' @ [CHR 0x22, CHR 0x22])
     [] '' X'' ('' '' @ [CHR 0x22, CHR 0x22] @ ''foo'' @ [CHR 0x22, CHR 0x22]) \<and>
   \<not> contains_py ''Final Answer:''
     (''Action: X\<newline>Action Input: '' @ [CHR 0x22, CHR 0x22] @ ''foo'' @ [CHR 0x22, CHR 0x22]) \<and>
   parse (''Action: X\<newline>Action Input: '' @ [CHR 0x22, CHR 0x22] @ ''foo'' @ [CHR 0x22, CHR 0x22]) =
     Inr (AgentAction ''X'' ''foo''
       (''Action: X\<newline>Action Input: '' @ [CHR 0x22, CHR 0x22] @ ''foo'' @ [CHR 0x22, CHR 0x22])) \<and>
   claimed_tool_input ('' '' @ [CHR 0x22, CHR 0x22] @ ''foo'' @ [CHR 0x22, CHR 0x22]) =
     [CHR 0x22] @ ''foo'' @ [CHR 0x22] \<and>
   parse (''Action: X\<newline>Action Input: '' @ [CHR 0x22, CHR 0x22] @ ''foo'' @ [CHR 0x22, CHR 0x22]) \<noteq>
     Inr (AgentAction (strip '' X'')
       (claimed_tool_input ('' '' @ [CHR 0x22, CHR 0x22] @ ''foo'' @ [CHR 0x22, CHR 0x22]))
       (''Action: X\<newline>Action Input: '' @ [CHR 0x22, CHR 0x22] @ ''foo'' @ [CHR 0x22, CHR 0x22]))"
proof (intro conjI)
  let ?q = "[CHR 0x22, CHR 0x22]"
  let ?s = "''Action: X\<newline>Action Input: '' @ ?q @ ''foo'' @ ?q"
  have "?s = [] @ ''Action:'' @ '' X'' @ ''\<newline>'' @ ''Action Input:'' @ ('' '' @ ?q @ ''foo'' @ ?q)"
    by simp
  with action_header_plain input_header_plain
  show "action_shape ?s [] '' X'' ('' '' @ ?q @ ''foo'' @ ?q)"
    unfolding action_shape_def by blast
  show "\<not> contains_py ''Final Answer:'' ?s"
    by code_simp
  show "parse ?s = Inr (AgentAction ''X'' ''foo'' ?s)"
    by code_simp
  show "claimed_tool_input ('' '' @ ?q @ ''foo'' @ ?q) = [CHR 0x22] @ ''foo'' @ [CHR 0x22]"
    by code_simp
  show "parse ?s \<noteq> Inr (AgentAction (strip '' X'')
       (claimed_tool_input ('' '' @ ?q @ ''foo'' @ ?q)) ?s)"
    by code_simp
qed

text \<open>
  Claim C2, amended. If the text has no \<open>Final Answer:\<close> marker and has the action shape
  somewhere, \<open>parse\<close> returns an \<open>AgentAction\<close> built from the leftmost place where the
  shape starts and, there, from the shortest action text: the tool is the action text
  stripped of whitespace, the tool input is the input text without its leading whitespace
  of any kind, then without the spaces at both ends, then without every double quote at
  both ends, and the log is the whole text.
\<close>

theorem parse_action:
  assumes "\<not> (\<exists>a b. llm_output = a @ ''Final Answer:'' @ b)"
    and "action_shape llm_output pre act inp"
  shows "\<exists>pre0 act0 inp0. action_shape llm_output pre0 act0 inp0 \<and>
           (\<forall>pre' act' inp'. action_shape llm_output pre' act' inp' \<longrightarrow>
              length pre0 < length pre' \<or> (pre' = pre0 \<and> length act0 \<le> length act')) \<and>
           parse llm_output =
             Inr (AgentAction (strip act0)
                    (strip_chars [CHR 0x22] (strip_chars '' '' (dropWhile isspace inp0)))
                    llm_output)"
proof -
  from assms(1) have no_marker: "\<not> contains_py ''Final Answer:'' llm_output"
    unfolding contains_py_iff .
  from search_regex_shape [OF assms(2)] obtain gs where gs: "search regex llm_output = Some gs"
    by blast
  from search_regex_result [OF gs] obtain pre0 act0 inp0
    where shape: "action_shape llm_output pre0 act0 inp0"
      and groups: "gs = [act0, dropWhile isspace inp0]"
      and first: "\<forall>pre' act' inp'. action_shape llm_output pre' act' inp' \<longrightarrow>
        length pre0 < length pre' \<or> (pre' = pre0 \<and> length act0 \<le> length act')"
    by blast
  have "parse llm_output =
      Inr (AgentAction (strip act0)
             (strip_chars [CHR 0x22] (strip_chars '' '' (dropWhile isspace inp0))) llm_output)"
    using no_marker gs groups by (simp add: parse_def)
  with shape first show ?thesis by blast
qed


theorem parse_action_witness:
  "(\<exists>pre0 act0 inp0.
      action_shape ''Thought: shirts\<newline>Action: Klarna\<newline>Action Input: shirts '' pre0 act0 inp0 \<and>
      (\<forall>pre' act' inp'.
          action_shape ''Thought: shirts\<newline>Action: Klarna\<newline>Action Input: shirts '' pre' act' inp' \<longrightarrow>
          length pre0 < length pre' \<or> (pre' = pre0 \<and> length act0 \<le> length act')) \<and>
      parse ''Thought: shirts\<newline>Action: Klarna\<newline>Action Input: shirts '' =
        Inr (AgentAction (strip act0)
               (strip_chars [CHR 0x22] (strip_chars '' '' (dropWhile isspace inp0)))
               ''Thought: shirts\<newline>Action: Klarna\<newline>Action Input: shirts '')) \<and>
   parse ''Thought: shirts\<newline>Action: Klarna\<newline>Action Input: shirts '' =
     Inr (AgentAction ''Klarna'' ''shirts''
            ''Thought: shirts\<newline>Action: Klarna\<newline>Action Input: shirts '')"
proof
  let ?s = "''Thought: shirts\<newline>Action: Klarna\<newline>Action Input: shirts ''"
  have "\<not> contains_py ''Final Answer:'' ?s"
    by code_simp
  then have no_marker: "\<not> (\<exists>a b. ?s = a @ ''Final Answer:'' @ b)"
    unfolding contains_py_iff .
  have "?s = ''Thought: shirts\<newline>'' @ ''Action:'' @ '' Klarna'' @ ''\<newline>'' @
      ''Action Input:'' @ '' shirts ''"
    by simp
  with action_header_plain input_header_plain
  have shape: "action_shape ?s ''Thought: shirts\<newline>'' '' Klarna'' '' shirts ''"
    unfolding action_shape_def by blast
  from parse_action [OF no_marker shape]
  show "\<exists>pre0 act0 inp0. action_shape ?s pre0 act0 inp0 \<and>
      (\<forall>pre' act' inp'. action_shape ?s pre' act' inp' \<longrightarrow>
          length pre0 < length pre' \<or> (pre' = pre0 \<and> length act0 \<le> length act')) \<and>
      parse ?s = Inr (AgentAction (strip act0)
               (strip_chars [CHR 0x22] (strip_chars '' '' (dropWhile isspace inp0))) ?s)" .
  show "parse ?s = Inr (AgentAction ''Klarna'' ''shirts'' ?s)"
    by code_simp
qed


section \<open>The output parser: failure\<close>

text \<open>
  Claim C3. If the text has neither the \<open>Final Answer:\<close> marker nor the action shape
  anywhere, \<open>parse\<close> returns no step: it raises the error whose message is
  \<open>Could not parse LLM output:\<close> followed by the text between backquotes.
\<close>

theorem parse_failure:
  assumes "\<not> (\<exists>a b. llm_output = a @ ''Final Answer:'' @ b)"
    and "\<not> (\<exists>pre act inp. action_shape llm_output pre act inp)"
  shows "parse llm_output =
           Inl (ValueError (''Could not parse LLM output: `'' @ llm_output @ ''`''))"
proof -
  from assms(1) have no_marker: "\<not> contains_py ''Final Answer:'' llm_output"
    unfolding contains_py_iff .
  have "search regex llm_output = None"
  proof (cases "search regex llm_output")
    case None
    then show ?thesis .
  next
    case (Some gs)
    from search_regex_result [OF Some] assms(2) show ?thesis by blast
  qed
  with no_marker show ?thesis by (simp add: parse_def)
qed


theorem parse_failure_witness:
  "parse ''I do not know'' = Inl (ValueError ''Could not parse LLM output: `I do not know`'')"
proof -
  have "\<not> contains_py ''Final Answer:'' ''I do not know''"
    by code_simp
  then have no_marker: "\<not> (\<exists>a b. ''I do not know'' = a @ ''Final Answer:'' @ b)"
    unfolding contains_py_iff .
  have "search regex ''I do not know'' = None"
    by code_simp
  with search_regex_shape [of "''I do not know''"]
  have no_shape: "\<not> (\<exists>pre act inp. action_shape ''I do not know'' pre act inp)"
    by blast
  from parse_failure [OF no_marker no_shape] show ?thesis by simp
qed


section \<open>The prompt assembler\<close>

text \<open>
  Claim C7. When the tools getter returns a tool list for the query, \<open>format\<close> returns
  the template with its four fields replaced: \<open>tools\<close> by the lines \<open>name: description\<close>
  of the tools, joined by line feeds; \<open>tool_names\<close> by the names joined by a comma and a
  space; \<open>input\<close> by the query; and \<open>agent_scratchpad\<close> by the concatenation, over the
  transcript in order, of the log of the action, a line feed, \<open>Observation:\<close>, the
  observation, a line feed and \<open>Thought:\<close>. The result is a function of the query, the
  transcript and the tools the getter returns.
\<close>

theorem format_renders:
  assumes "tools_getter input = Inr tools"
  shows "format template tools_getter input intermediate_steps =
    Inr ((''Answer the following questions as best you can, speaking casual American English. You have access to the following tools:\<newline>'' @
          ''\<newline>'' @
          ''    '') @
         join ''\<newline>'' (map (\<lambda>tool. name tool @ '': '' @ description tool) tools) @
         (''\<newline>'' @
          ''\<newline>'' @
          ''    Use the following format:\<newline>'' @
          ''\<newline>'' @
          ''    Question: the input question you must answer\<newline>'' @
          ''    Thought: you should always think about what to do\<newline>'' @
          ''    Action: the action to take, should be one of ['') @
         join '', '' (map name tools) @
         ('']\<newline>'' @
          ''    Action Input: the input to the action\<newline>'' @
          ''    Observation: the result of the action\<newline>'' @
          ''    ... (this Thought/Action/Action Input/Observation can repeat N times)\<newline>'' @
          ''    Thought: I now know the final answer\<newline>'' @
          ''    Final Answer: the final answer to the original input question\<newline>'' @
          ''\<newline>'' @
          ''    Begin! Remember to speak casual American English when giving your final answer.\<newline>'' @
          ''\<newline>'' @
          ''    Question: '') @
         input @
         (''\<newline>'' @
          ''    '') @
         concat (map (\<lambda>(action, observation).
                log action @ ''\<newline>Observation: '' @ observation @ ''\<newline>Thought: '')
           intermediate_steps))"
    (is "_ = Inr (?t1 @ ?tools @ ?t2 @ ?names @ ?t3 @ _ @ ?t4 @ ?pad)")
proof -
  define kwargs where "kwargs =
    [''input'' \<mapsto> input, ''agent_scratchpad'' \<mapsto> ?pad, ''tools'' \<mapsto> ?tools,
     ''tool_names'' \<mapsto> ?names]"
  have kwargs: "format_kwargs tools_getter input intermediate_steps = Inr kwargs"
    by (simp add: format_kwargs_def assms agent_scratchpad_concat kwargs_def)
  have template: "template =
      ?t1 @ CHR ''{'' # ''tools'' @ CHR ''}'' #
      ?t2 @ CHR ''{'' # ''tool_names'' @ CHR ''}'' #
      ?t3 @ CHR ''{'' # ''input'' @ CHR ''}'' #
      ?t4 @ CHR ''{'' # ''agent_scratchpad'' @ CHR ''}'' # []"
    by (simp add: template_def)
  have s4: "format_from kwargs None (?t4 @ CHR ''{'' # ''agent_scratchpad'' @ CHR ''}'' # []) =
      Inr (?t4 @ ?pad)"
    by (subst format_from_segment [where v = ?pad]) (simp_all add: kwargs_def emit_def)
  have s3: "format_from kwargs None (?t3 @ CHR ''{'' # ''input'' @ CHR ''}'' # r) =
      emit (?t3 @ input) (format_from kwargs None r)" for r
    by (subst format_from_segment [where v = input]) (simp_all add: kwargs_def)
  have s2: "format_from kwargs None (?t2 @ CHR ''{'' # ''tool_names'' @ CHR ''}'' # r) =
      emit (?t2 @ ?names) (format_from kwargs None r)" for r
    by (subst format_from_segment [where v = ?names]) (simp_all add: kwargs_def)
  have s1: "format_from kwargs None (?t1 @ CHR ''{'' # ''tools'' @ CHR ''}'' # r) =
      emit (?t1 @ ?tools) (format_from kwargs None r)" for r
    by (subst format_from_segment [where v = ?tools]) (simp_all add: kwargs_def)
  have "format_str template kwargs =
      Inr ((?t1 @ ?tools) @ (?t2 @ ?names) @ (?t3 @ input) @ ?t4 @ ?pad)"
    unfolding format_str_def template s1 s2 s3 s4 by (simp add: emit_def)
  then show ?thesis
    unfolding format_def kwargs by simp
qed

theorem format_renders_witness:
  "format template
     (\<lambda>query. Inr [\<lparr>name = ''a'', description = ''does a'', func = id\<rparr>,
                      \<lparr>name = ''b'', description = ''does b'', func = id\<rparr>])
     ''hello'' [(AgentAction ''a'' ''x'' ''Action: a\<newline>Action Input: x'', ''seen'')] =
    Inr ((''Answer the following questions as best you can, speaking casual American English. You have access to the following tools:\<newline>'' @
          ''\<newline>'' @
          ''    '') @
         ''a: does a\<newline>b: does b'' @
         (''\<newline>'' @
          ''\<newline>'' @
          ''    Use the following format:\<newline>'' @
          ''\<newline>'' @
          ''    Question: the input question you must answer\<newline>'' @
          ''    Thought: you should always think about what to do\<newline>'' @
          ''    Action: the action to take, should be one of ['') @
         ''a, b'' @
         ('']\<newline>'' @
          ''    Action Input: the input to the action\<newline>'' @
          ''    Observation: the result of the action\<newline>'' @
          ''    ... (this Thought/Action/Action Input/Observation can repeat N times)\<newline>'' @
          ''    Thought: I now know the final answer\<newline>'' @
          ''    Final Answer: the final answer to the original input question\<newline>'' @
          ''\<newline>'' @
          ''    Begin! Remember to speak casual American English when giving your final answer.\<newline>'' @
          ''\<newline>'' @
          ''    Question: '') @
         ''hello'' @
         (''\<newline>'' @
          ''    '') @
         ''Action: a\<newline>Action Input: x\<newline>Observation: seen\<newline>Thought: '')"
  using format_renders
    [of "(\<lambda>query. Inr [\<lparr>name = ''a'', description = ''does a'', func = id\<rparr>,
                      \<lparr>name = ''b'', description = ''does b'', func = id\<rparr>])"
        "''hello''"
        "[\<lparr>name = ''a'', description = ''does a'', func = id\<rparr>,
          \<lparr>name = ''b'', description = ''does b'', func = id\<rparr>]"
        "[(AgentAction ''a'' ''x'' ''Action: a\<newline>Action Input: x'', ''seen'')]"]
  by simp

text \<open>
  Claim C4. \<open>format\<close> calls the tools getter on the value bound to \<open>input\<close> and on
  nothing else. So, for two transcripts of one run, the two prompts that \<open>format\<close>
  renders from the template are the same up to the scratchpad: the fixed texts of the
  template, the lines and the names of the tools that the getter returns for the query,
  and the query. The tool names shown to the model are the same on every iteration.
\<close>

theorem format_tools_from_query:
  assumes "tools_getter input = Inr tools"
  shows "\<exists>t1 t2 t3 t4.
      template = t1 @ ''{tools}'' @ t2 @ ''{tool_names}'' @ t3 @ ''{input}'' @ t4 @
        ''{agent_scratchpad}'' \<and>
      format template tools_getter input intermediate_steps =
        Inr (t1 @ join ''\<newline>'' (map (\<lambda>tool. name tool @ '': '' @ description tool) tools) @
             t2 @ join '', '' (map name tools) @ t3 @ input @ t4 @
             agent_scratchpad intermediate_steps) \<and>
      format template tools_getter input intermediate_steps' =
        Inr (t1 @ join ''\<newline>'' (map (\<lambda>tool. name tool @ '': '' @ description tool) tools) @
             t2 @ join '', '' (map name tools) @ t3 @ input @ t4 @
             agent_scratchpad intermediate_steps')"
proof -
  let ?t1 = "''Answer the following questions as best you can, speaking casual American English. You have access to the following tools:\<newline>'' @
             ''\<newline>'' @
             ''    ''"
  let ?t2 = "''\<newline>'' @
             ''\<newline>'' @
             ''    Use the following format:\<newline>'' @
             ''\<newline>'' @
             ''    Question: the input question you must answer\<newline>'' @
             ''    Thought: you should always think about what to do\<newline>'' @
             ''    Action: the action to take, should be one of [''"
  let ?t3 = "'']\<newline>'' @
             ''    Action Input: the input to the action\<newline>'' @
             ''    Observation: the result of the action\<newline>'' @
             ''    ... (this Thought/Action/Action Input/Observation can repeat N times)\<newline>'' @
             ''    Thought: I now know the final answer\<newline>'' @
             ''    Final Answer: the final answer to the original input question\<newline>'' @
             ''\<newline>'' @
             ''    Begin! Remember to speak casual American English when giving your final answer.\<newline>'' @
             ''\<newline>'' @
             ''    Question: ''"
  let ?t4 = "''\<newline>'' @
             ''    ''"
  have template: "template =
      ?t1 @ ''{tools}'' @ ?t2 @ ''{tool_names}'' @ ?t3 @ ''{input}'' @ ?t4 @
        ''{agent_scratchpad}''"
    by (simp add: template_def)
  have rendered: "format template tools_getter input steps =
      Inr (?t1 @ join ''\<newline>'' (map (\<lambda>tool. name tool @ '': '' @ description tool) tools) @
           ?t2 @ join '', '' (map name tools) @ ?t3 @ input @ ?t4 @ agent_scratchpad steps)"
    for steps
    unfolding template by (rule format_four_fields) (simp_all add: assms)
  from template rendered [of intermediate_steps] rendered [of "intermediate_steps'"]
  show ?thesis by blast
qed

theorem format_tools_from_query_witness:
  "\<exists>t1 t2 t3 t4.
      template = t1 @ ''{tools}'' @ t2 @ ''{tool_names}'' @ t3 @ ''{input}'' @ t4 @
        ''{agent_scratchpad}'' \<and>
      format template (\<lambda>query. if query = ''shirts''
           then Inr [\<lparr>name = ''a'', description = ''does a'', func = id\<rparr>,
                     \<lparr>name = ''b'', description = ''does b'', func = id\<rparr>]
           else Inr []) ''shirts'' [] =
        Inr (t1 @ join ''\<newline>'' (map (\<lambda>tool. name tool @ '': '' @ description tool) [\<lparr>name = ''a'', description = ''does a'', func = id\<rparr>,
                     \<lparr>name = ''b'', description = ''does b'', func = id\<rparr>]) @
             t2 @ join '', '' (map name [\<lparr>name = ''a'', description = ''does a'', func = id\<rparr>,
                     \<lparr>name = ''b'', description = ''does b'', func = id\<rparr>]) @ t3 @ ''shirts'' @ t4 @
             agent_scratchpad []) \<and>
      format template (\<lambda>query. if query = ''shirts''
           then Inr [\<lparr>name = ''a'', description = ''does a'', func = id\<rparr>,
                     \<lparr>name = ''b'', description = ''does b'', func = id\<rparr>]
           else Inr []) ''shirts'' [(AgentAction ''a'' ''x'' ''Action: a\<newline>Action Input: x'', ''seen'')] =
        Inr (t1 @ join ''\<newline>'' (map (\<lambda>tool. name tool @ '': '' @ description tool) [\<lparr>name = ''a'', description = ''does a'', func = id\<rparr>,
                     \<lparr>name = ''b'', description = ''does b'', func = id\<rparr>]) @
             t2 @ join '', '' (map name [\<lparr>name = ''a'', description = ''does a'', func = id\<rparr>,
                     \<lparr>name = ''b'', description = ''does b'', func = id\<rparr>]) @ t3 @ ''shirts'' @ t4 @
             agent_scratchpad [(AgentAction ''a'' ''x'' ''Action: a\<newline>Action Input: x'', ''seen'')])"
  by (rule format_tools_from_query) simp

section \<open>The form: the credential gate\<close>

text \<open>
  Claim C5, as the specification states it, fails. With the credential \<open>abc\<close> and the
  query \<open>hello\<close> the submit button is not disabled: its \<open>disabled\<close> flag is set from the
  query alone.
\<close>

theorem submit_enabled_counterexample:
  "\<not> prefix ''sk-'' ''abc'' \<and>
   \<not> submit_disabled (script (\<lambda>key query. Inr ''hi'') ''hello'' ''abc'' False)"
  by (simp add: script_def form_submit_button_def startswith_def Let_def)

text \<open>
  Claim C5, amended. \<open>generate_response\<close> is called, once and with the entered key and
  query, exactly when the button is clicked with a non-empty query and a credential that
  starts with \<open>sk-\<close>. The submit button is disabled exactly when the query is empty,
  whatever the credential. With a credential that does not start with \<open>sk-\<close> no run is
  started, nothing is written and no error is raised.
\<close>

theorem script_gate:
  "calls (script generate_response query_text openai_api_key clicked) =
     (if clicked \<and> query_text \<noteq> [] \<and> prefix ''sk-'' openai_api_key
      then [(openai_api_key, query_text)] else []) \<and>
   submit_disabled (script generate_response query_text openai_api_key clicked) =
     (query_text = []) \<and>
   (\<not> prefix ''sk-'' openai_api_key \<longrightarrow>
      calls (script generate_response query_text openai_api_key clicked) = [] \<and>
      written (script generate_response query_text openai_api_key clicked) = [] \<and>
      raised (script generate_response query_text openai_api_key clicked) = None)"
  by (simp add: script_def form_submit_button_def startswith_def Let_def split: sum.splits)

theorem script_gate_witness:
  "\<not> prefix ''sk-'' ''abc'' \<and>
   calls (script (\<lambda>key query. Inr ''hi'') ''hello'' ''abc'' True) = [] \<and>
   written (script (\<lambda>key query. Inr ''hi'') ''hello'' ''abc'' True) = [] \<and>
   raised (script (\<lambda>key query. Inr ''hi'') ''hello'' ''abc'' True) = None \<and>
   submit_disabled (script (\<lambda>key query. Inr ''hi'') ''hello'' ''abc'' True) = False \<and>
   calls (script (\<lambda>key query. Inr ''hi'') ''hello'' ''sk-123'' True) = [(''sk-123'', ''hello'')]"
  using script_gate [of "\<lambda>key query. Inr ''hi''" "''hello''" "''abc''" True]
    script_gate [of "\<lambda>key query. Inr ''hi''" "''hello''" "''sk-123''" True]
  by simp


section \<open>The orchestration loop: the iteration cap\<close>

text \<open>
  Claim C6. A run asks the model for at most 3 completions, whatever the model answers,
  and the loop is a total function. When the prompt is always assembled and every
  completion is an action on a tool of the tool set, the run stops after 3 cycles with a
  transcript of 3 entries and returns the best-effort output, not an error.
\<close>

theorem loop_within_cap:
  "run_cycles (agent_executor_run llm assemble tools best_effort) \<le> 3 \<and>
   ((\<forall>steps. \<exists>prompt. assemble steps = Inr prompt) \<and>
    (\<forall>prompt. \<exists>t t_input text chosen.
        parse (llm prompt) = Inr (AgentAction t t_input text) \<and>
        find (\<lambda>candidate. name candidate = t) tools = Some chosen) \<longrightarrow>
    (\<exists>steps. length steps = 3 \<and>
       agent_executor_run llm assemble tools best_effort =
         \<lparr>run_cycles = 3, run_transcript = steps, run_outcome = Inr (best_effort steps)\<rparr>))"
proof (intro conjI impI)
  show "run_cycles (agent_executor_run llm assemble tools best_effort) \<le> 3"
    using loop_cycles_bound [of llm assemble tools best_effort 0 "[]"]
    by (simp add: agent_executor_run_def max_iterations_def)
next
  assume "(\<forall>steps. \<exists>prompt. assemble steps = Inr prompt) \<and>
    (\<forall>prompt. \<exists>t t_input text chosen.
        parse (llm prompt) = Inr (AgentAction t t_input text) \<and>
        find (\<lambda>candidate. name candidate = t) tools = Some chosen)"
  then have "\<exists>steps'. length steps' = length ([] :: (agent_step \<times> string) list) + 3 \<and>
      orchestration_loop llm assemble tools best_effort 0 [] =
        \<lparr>run_cycles = max_iterations, run_transcript = steps',
         run_outcome = Inr (best_effort steps')\<rparr>"
    by (intro loop_reaches_cap) (simp_all add: max_iterations_def)
  then show "\<exists>steps. length steps = 3 \<and>
       agent_executor_run llm assemble tools best_effort =
         \<lparr>run_cycles = 3, run_transcript = steps, run_outcome = Inr (best_effort steps)\<rparr>"
    by (simp add: agent_executor_run_def max_iterations_def)
qed

theorem loop_within_cap_witness:
  "run_cycles (agent_executor_run (\<lambda>prompt. ''Action: a\<newline>Action Input: x'')
      (\<lambda>steps. Inr ''Question'') [\<lparr>name = ''a'', description = ''does a'', func = id\<rparr>]
      (\<lambda>steps. ''stopped'')) \<le> 3 \<and>
   (\<exists>steps. length steps = 3 \<and>
      agent_executor_run (\<lambda>prompt. ''Action: a\<newline>Action Input: x'')
        (\<lambda>steps. Inr ''Question'') [\<lparr>name = ''a'', description = ''does a'', func = id\<rparr>]
        (\<lambda>steps. ''stopped'') =
      \<lparr>run_cycles = 3, run_transcript = steps, run_outcome = Inr ''stopped''\<rparr>)"
proof -
  have "parse ''Action: a\<newline>Action Input: x'' =
      Inr (AgentAction ''a'' ''x'' ''Action: a\<newline>Action Input: x'')"
    by code_simp
  then have "\<forall>prompt. \<exists>t t_input text chosen.
      parse ((\<lambda>prompt. ''Action: a\<newline>Action Input: x'') prompt) =
        Inr (AgentAction t t_input text) \<and>
      find (\<lambda>candidate. name candidate = t)
        [\<lparr>name = ''a'', description = ''does a'', func = id\<rparr>] = Some chosen"
    by simp
  moreover have "\<forall>steps :: (agent_step \<times> string) list.
      \<exists>prompt. (\<lambda>steps. Inr ''Question'' :: error + string) steps = Inr prompt"
    by simp
  ultimately show ?thesis
    using loop_within_cap [of "\<lambda>prompt. ''Action: a\<newline>Action Input: x''"
      "\<lambda>steps. Inr ''Question''" "[\<lparr>name = ''a'', description = ''does a'', func = id\<rparr>]"
      "\<lambda>steps. ''stopped''"]
    by blast
qed

section \<open>The tools getter: independence of the query\<close>

text \<open>
  Claim C9, as stated, fails where it says which tools are returned. \<open>toolkits_dict\<close> is
  keyed by the name of the plugin, so a later plugin of the same name replaces an earlier
  one. When the three manifests give the same name, \<open>get_tools\<close> returns the tools of the
  last toolkit three times, and the tools of the first toolkit, which are in the union
  of the three toolkits, are not returned.
\<close>

theorem get_tools_same_name_counterexample:
  "(\<forall>query. mset ((\<lambda>query ds. ds) query (docs (\<lambda>url. \<lparr>name_for_model = ''dup'', description_for_model = url\<rparr>))) =
      mset (docs (\<lambda>url. \<lparr>name_for_model = ''dup'', description_for_model = url\<rparr>))) \<and>
   get_tools
     (get_relevant_documents (\<lambda>query ds. ds)
        (docs (\<lambda>url. \<lparr>name_for_model = ''dup'', description_for_model = url\<rparr>)))
     (toolkits_dict
        (\<lambda>plugin. \<lparr>nla_tools =
          [\<lparr>name = description_for_model plugin, description = ''call'', func = id\<rparr>]\<rparr>)
        (\<lambda>url. \<lparr>name_for_model = ''dup'', description_for_model = url\<rparr>))
     ''shirts'' =
     Inr [\<lparr>name = ''https://schooldigger.com/.well-known/ai-plugin.json'',
         description = ''call'', func = id\<rparr>,
          \<lparr>name = ''https://schooldigger.com/.well-known/ai-plugin.json'',
         description = ''call'', func = id\<rparr>,
          \<lparr>name = ''https://schooldigger.com/.well-known/ai-plugin.json'',
         description = ''call'', func = id\<rparr>] \<and>
   concat (map (\<lambda>plugin. nla_tools
        ((\<lambda>plugin. \<lparr>nla_tools =
          [\<lparr>name = description_for_model plugin, description = ''call'', func = id\<rparr>]\<rparr>) plugin))
     (AI_PLUGINS (\<lambda>url. \<lparr>name_for_model = ''dup'', description_for_model = url\<rparr>))) =
     [\<lparr>name = ''https://api.speak.com/.well-known/ai-plugin.json'',
         description = ''call'', func = id\<rparr>,
      \<lparr>name = ''https://www.klarna.com/.well-known/ai-plugin.json'',
         description = ''call'', func = id\<rparr>,
      \<lparr>name = ''https://schooldigger.com/.well-known/ai-plugin.json'',
         description = ''call'', func = id\<rparr>] \<and>
   \<lparr>name = ''https://api.speak.com/.well-known/ai-plugin.json'',
         description = ''call'', func = id\<rparr>
     \<notin> set [\<lparr>name = ''https://schooldigger.com/.well-known/ai-plugin.json'',
         description = ''call'', func = id\<rparr>]"
  by (simp add: get_tools_def get_relevant_documents_def default_k_def docs_def AI_PLUGINS_def
      urls_def toolkits_dict_def getitem_def)

text \<open>
  Claim C9, amended. The retriever keeps the 4 nearest of the 3 indexed documents, so,
  when the ranking of a query is a reordering of the indexed documents, \<open>get_tools\<close>
  returns for any two queries the same tools up to order. When the three plugins have
  different names these are the tools of the three toolkits.
\<close>

theorem get_tools_query_independent:
  assumes "\<forall>query. mset (rank query (docs from_url)) = mset (docs from_url)"
  shows "\<exists>ts ts'.
      get_tools (get_relevant_documents rank (docs from_url))
        (toolkits_dict from_llm_and_ai_plugin from_url) query = Inr ts \<and>
      get_tools (get_relevant_documents rank (docs from_url))
        (toolkits_dict from_llm_and_ai_plugin from_url) query' = Inr ts' \<and>
      mset ts = mset ts' \<and>
      (distinct (map name_for_model (AI_PLUGINS from_url)) \<longrightarrow>
         mset ts = mset (concat (map (\<lambda>plugin. nla_tools (from_llm_and_ai_plugin plugin))
                                  (AI_PLUGINS from_url))))"
proof -
  from assms have first: "mset (rank query (docs from_url)) = mset (docs from_url)"
    and second: "mset (rank query' (docs from_url)) = mset (docs from_url)"
    by simp_all
  from get_tools_result [of rank query from_url from_llm_and_ai_plugin, OF first]
  obtain ts where ts: "get_tools (get_relevant_documents rank (docs from_url))
        (toolkits_dict from_llm_and_ai_plugin from_url) query = Inr ts"
      "mset ts = mset (concat (map (\<lambda>doc. nla_tools
          (the (toolkits_dict from_llm_and_ai_plugin from_url
            (the (metadata doc ''plugin_name''))))) (docs from_url)))"
    by blast
  from get_tools_result [of rank query' from_url from_llm_and_ai_plugin, OF second]
  obtain ts' where ts': "get_tools (get_relevant_documents rank (docs from_url))
        (toolkits_dict from_llm_and_ai_plugin from_url) query' = Inr ts'"
      "mset ts' = mset (concat (map (\<lambda>doc. nla_tools
          (the (toolkits_dict from_llm_and_ai_plugin from_url
            (the (metadata doc ''plugin_name''))))) (docs from_url)))"
    by blast
  from ts(2) ts'(2) have "mset ts = mset ts'" by simp
  moreover have "mset ts = mset (concat (map (\<lambda>plugin. nla_tools (from_llm_and_ai_plugin plugin))
      (AI_PLUGINS from_url)))" if "distinct (map name_for_model (AI_PLUGINS from_url))"
    using ts(2) docs_toolkits_distinct [OF that, of from_llm_and_ai_plugin] by simp
  ultimately show ?thesis using ts(1) ts'(1) by blast
qed

theorem get_tools_query_independent_witness:
  "(\<forall>query. mset ((\<lambda>query ds. if query = ''shirts'' then rev ds else ds) query
       (docs (\<lambda>url. \<lparr>name_for_model = url, description_for_model = ''an API''\<rparr>))) =
     mset (docs (\<lambda>url. \<lparr>name_for_model = url, description_for_model = ''an API''\<rparr>))) \<and>
   distinct (map name_for_model (AI_PLUGINS (\<lambda>url. \<lparr>name_for_model = url, description_for_model = ''an API''\<rparr>))) \<and>
   (\<exists>ts ts'.
      get_tools (get_relevant_documents (\<lambda>query ds. if query = ''shirts'' then rev ds else ds)
          (docs (\<lambda>url. \<lparr>name_for_model = url, description_for_model = ''an API''\<rparr>)))
        (toolkits_dict (\<lambda>plugin. \<lparr>nla_tools = [\<lparr>name = name_for_model plugin, description = ''call'', func = id\<rparr>]\<rparr>)
           (\<lambda>url. \<lparr>name_for_model = url, description_for_model = ''an API''\<rparr>)) ''shirts'' = Inr ts \<and>
      get_tools (get_relevant_documents (\<lambda>query ds. if query = ''shirts'' then rev ds else ds)
          (docs (\<lambda>url. \<lparr>name_for_model = url, description_for_model = ''an API''\<rparr>)))
        (toolkits_dict (\<lambda>plugin. \<lparr>nla_tools = [\<lparr>name = name_for_model plugin, description = ''call'', func = id\<rparr>]\<rparr>)
           (\<lambda>url. \<lparr>name_for_model = url, description_for_model = ''an API''\<rparr>)) ''schools'' = Inr ts' \<and>
      mset ts = mset ts' \<and>
      mset ts = mset (concat (map (\<lambda>plugin. nla_tools ((\<lambda>plugin. \<lparr>nla_tools = [\<lparr>name = name_for_model plugin, description = ''call'', func = id\<rparr>]\<rparr>) plugin))
                               (AI_PLUGINS (\<lambda>url. \<lparr>name_for_model = url, description_for_model = ''an API''\<rparr>)))))"
proof -
  let ?rank = "(\<lambda>query ds. if query = ''shirts'' then rev ds else ds)"
  let ?from_url = "(\<lambda>url. \<lparr>name_for_model = url, description_for_model = ''an API''\<rparr>)"
  let ?mk = "(\<lambda>plugin. \<lparr>nla_tools = [\<lparr>name = name_for_model plugin, description = ''call'', func = id\<rparr>]\<rparr>)"
  have perm: "\<forall>query. mset (?rank query (docs ?from_url)) = mset (docs ?from_url)"
    by simp
  have names: "distinct (map name_for_model (AI_PLUGINS ?from_url))"
    by (simp add: AI_PLUGINS_def urls_def)
  from perm have "\<exists>ts ts'.
      get_tools (get_relevant_documents ?rank (docs ?from_url))
        (toolkits_dict ?mk ?from_url) ''shirts'' = Inr ts \<and>
      get_tools (get_relevant_documents ?rank (docs ?from_url))
        (toolkits_dict ?mk ?from_url) ''schools'' = Inr ts' \<and>
      mset ts = mset ts' \<and>
      (distinct (map name_for_model (AI_PLUGINS ?from_url)) \<longrightarrow>
         mset ts = mset (concat (map (\<lambda>plugin. nla_tools (?mk plugin)) (AI_PLUGINS ?from_url))))"
    by (rule get_tools_query_independent
        [where rank = ?rank and from_url = ?from_url and from_llm_and_ai_plugin = ?mk])
  with names perm show ?thesis by blast
qed

section \<open>The output parser: an action with no name\<close>

text \<open>
  Claim C10. The pattern lets the action text be empty: on the text
  \<open>Action:\<close>, a line feed, \<open>Action Input: foo\<close> the parser does not fail; it returns an
  \<open>AgentAction\<close> whose tool is the empty string and whose input is \<open>foo\<close>.
\<close>

theorem parse_empty_action:
  "parse ''Action:\<newline>Action Input: foo'' =
     Inr (AgentAction [] ''foo'' ''Action:\<newline>Action Input: foo'')"
  by code_simp

end
